theory Spec2Isabelle
  imports Complex_Main "HOL-Library.AList"
begin

section \<open>Data model of the multi-agent orchestrator (src/src/index.ts)\<close>

text \<open>
  The TypeScript interfaces \<^verbatim>\<open>AgentConfig\<close>, \<open>Task\<close>, \<open>AgentMessage\<close> and
  \<open>AgentState\<close> become records, their string-literal unions become datatypes.
  A JavaScript \<open>Map\<close> iterates in insertion order, \<open>set\<close> on an existing key keeps
  the key's position and \<open>set\<close> on a new key appends: this is an association list
  with \<open>AList.update\<close>, \<open>AList.delete\<close> and \<open>map_of\<close>.
  Timestamps are milliseconds (\<open>int\<close>): \<open>new Date().toISOString()\<close> followed by
  \<open>new Date(s).getTime()\<close> is the identity on them. JavaScript numbers that are
  fractions (success rate, average duration, utilisation) are exact rationals here.
  Results of execution strategies are opaque; they are strings in the model.
\<close>

text \<open>
  TypeScript's types are erased at run time. \<open>createTask\<close> copies the properties of its
  argument into the task it stores, so a property of declared type \<open>T\<close> of a stored task
  holds a value of \<open>T\<close>, or \<open>undefined\<close>, or \<open>null\<close> (which the raw arguments of a
  tool call can carry). A value of yet another type (a number where a string is
  declared) is outside the model.
\<close>

datatype 'a js = JsUndefined | JsNull | Val 'a

text \<open>A property of a \<open>Partial<...>\<close> object: the object has no such property, or it has
  one, whose value may again be \<open>undefined\<close> or \<open>null\<close>.\<close>

datatype 'a property = Absent | Present "'a js"

datatype task_type = Research | Analysis | Coding | Testing | Documentation | Planning | Custom

datatype priority = Low | Medium | High | Critical

datatype task_status = Pending | Assigned | In_progress | Completed | Failed | Cancelled

datatype agent_status = Idle | Busy | Error | Offline

datatype message_type =
  Task_assignment | Task_result | Collaboration_request | Status_update | Error_report

text \<open>A value thrown in JavaScript: an \<open>Error\<close> object with its message, or anything else.\<close>

datatype js_throw = JsError string | JsOther string

text \<open>Every \<open>throw new Error(...)\<close> of the orchestrator, one constructor per throw site,
  and \<open>Thrown\<close> for a strategy's exception that \<open>executeTask\<close> re-raises.\<close>

datatype orch_error =
    AgentExists string
  | MissingIdNameRole
  | NoCapability
  | NoSystemPrompt
  | ParentNotFound string
  | TaskNotFound string
  | TaskNotPending string
  | NoSuitableAgent
  | AgentNotFound string
  | UnmetDependencies "string list"
  | TaskNotFoundOrNotAssigned string
  | Thrown js_throw
  | TypeError

type_synonym result = string

text \<open>\<open>AgentConfig\<close>. \<open>createAgent\<close> stores the configuration it is given once
  \<open>validateAgentConfig\<close> has accepted it, and that does not look at \<open>priority\<close>: a stored
  configuration can lack one. (\<open>maxTokens\<close>, \<open>temperature\<close> and \<open>tools\<close> are read by nothing
  in the orchestrator and are left out.)\<close>

record agent_config =
  cfg_id :: string
  cfg_name :: string
  cfg_role :: string
  cfg_capabilities :: "string list"
  cfg_systemPrompt :: string
  cfg_parentAgentId :: "string option"
  cfg_priority :: "priority js"
  cfg_timeout :: "int option"

text \<open>
  A stored \<open>Task\<close> object. The properties that the interface requires are the ones for
  which \<open>createTask\<close> writes a value before it copies its argument over them; each holds
  a value of its type, \<open>undefined\<close> or \<open>null\<close>. The optional properties are read only
  where the code tests them for truthiness, uses them as the key of a \<open>Map\<close> or has
  just written them; there \<open>undefined\<close>, \<open>null\<close> and a missing property behave alike, and
  all three are \<open>None\<close>.
\<close>

record task =
  t_id :: "string js"
  t_description :: "string js"
  t_type :: "task_type js"
  t_priority :: "priority js"
  t_assignedAgentId :: "string option"
  t_status :: "task_status js"
  t_dependencies :: "string list js"
  t_result :: "result option"
  t_error :: "string option"
  t_createdAt :: "int js"
  t_startedAt :: "int option"
  t_completedAt :: "int option"
  t_estimatedDuration :: "int option"
  t_actualDuration :: "int option"
  t_parentTaskId :: "string option"
  t_subtasks :: "string list js"

text \<open>\<open>Partial<Task>\<close>, the argument of \<open>createTask\<close>.\<close>

record task_config =
  pc_id :: "string property"
  pc_description :: "string property"
  pc_type :: "task_type property"
  pc_priority :: "priority property"
  pc_assignedAgentId :: "string property"
  pc_status :: "task_status property"
  pc_dependencies :: "string list property"
  pc_result :: "result property"
  pc_error :: "string property"
  pc_createdAt :: "int property"
  pc_startedAt :: "int property"
  pc_completedAt :: "int property"
  pc_estimatedDuration :: "int property"
  pc_actualDuration :: "int property"
  pc_parentTaskId :: "string property"
  pc_subtasks :: "string list property"

text \<open>\<open>AgentState\<close>; the nested \<open>performance\<close> object is flattened, and the
  \<open>resources\<close> snapshot (random numbers refreshed every tick, read by nothing) is left out.\<close>

record agent_state =
  st_id :: string
  st_status :: agent_status
  st_currentTask :: "string option"
  st_taskQueue :: "string list"
  st_tasksCompleted :: nat
  st_tasksSuccessful :: nat
  st_averageTaskDuration :: rat
  st_lastActiveAt :: int
  st_capabilities :: "string list"
  st_specializations :: "string list"

text \<open>The \<open>content\<close> payload of a message, with the fields the handlers destructure.\<close>

record message_content =
  c_taskId :: "string option"
  c_result :: "result option"
  c_error :: "string option"
  c_requestType :: "string option"

record agent_message =
  m_id :: string
  m_fromAgentId :: string
  m_toAgentId :: string
  m_type :: message_type
  m_content :: message_content
  m_timestamp :: int
  m_priority :: priority

text \<open>The orchestrator object. \<open>clock\<close> is the wall clock that \<open>new Date()\<close> and
  \<open>Date.now()\<close> read; it belongs to the environment and is carried with the state.\<close>

record orch =
  agents :: "(string \<times> agent_config) list"
  agentStates :: "(string \<times> agent_state) list"
  tasks :: "(string \<times> task) list"
  messageQueue :: "agent_message list"
  collaborationGraph :: "(string \<times> string list) list"
  clock :: int

definition init_orch :: orch where
  "init_orch = \<lparr>agents = [], agentStates = [], tasks = [], messageQueue = [],
     collaborationGraph = [], clock = 0\<rparr>"

text \<open>JavaScript truthiness of an optional string: \<open>undefined\<close> and \<open>''\<close> are falsy.\<close>

fun truthy :: "string option \<Rightarrow> bool" where
  "truthy None = False"
| "truthy (Some s) = (s \<noteq> [])"

text \<open>Reading a property, \<open>taskConfig.type\<close>: a missing property reads as \<open>undefined\<close>.\<close>

fun read_prop :: "'a property \<Rightarrow> 'a js" where
  "read_prop Absent = JsUndefined"
| "read_prop (Present v) = v"

text \<open>\<open>v || d\<close> for a type all of whose values are truthy (the string literals of a
  union, an array), and for strings, of which the empty one is falsy.\<close>

fun or_else :: "'a js \<Rightarrow> 'a \<Rightarrow> 'a" where
  "or_else (Val v) d = v"
| "or_else JsUndefined d = d"
| "or_else JsNull d = d"

fun or_else_string :: "string js \<Rightarrow> string \<Rightarrow> string" where
  "or_else_string (Val v) d = (if v = [] then d else v)"
| "or_else_string JsUndefined d = d"
| "or_else_string JsNull d = d"

text \<open>Object spread \<open>{...base, ...partial}\<close>, property by property: a property that
  \<open>partial\<close> has replaces the one of \<open>base\<close>, whatever its value.\<close>

fun spread :: "'a js \<Rightarrow> 'a property \<Rightarrow> 'a js" where
  "spread d Absent = d"
| "spread d (Present v) = v"

fun spread_opt :: "'a option \<Rightarrow> 'a property \<Rightarrow> 'a option" where
  "spread_opt d Absent = d"
| "spread_opt d (Present (Val v)) = Some v"
| "spread_opt d (Present JsUndefined) = None"
| "spread_opt d (Present JsNull) = None"

subsection \<open>createTask\<close>

text \<open>
  \<^verbatim>\<open>
  const task: Task = {
    id: taskId,
    description: taskConfig.description || 'Unnamed task',
    type: taskConfig.type || 'custom',
    priority: taskConfig.priority || 'medium',
    status: 'pending',
    dependencies: taskConfig.dependencies || [],
    createdAt: new Date().toISOString(),
    subtasks: [],
    ...taskConfig,
  };
  this.tasks.set(taskId, task);
  return taskId;
  \<close>
  The generated id \<open>task_<Date.now()>_<random>\<close> is an input of the model.
  \<open>task_defaults\<close> is the object literal up to the spread, \<open>spread_task\<close> the spread.
\<close>

definition task_defaults :: "string \<Rightarrow> int \<Rightarrow> task_config \<Rightarrow> task" where
  "task_defaults taskId now taskConfig =
     \<lparr>t_id = Val taskId,
      t_description = Val (or_else_string (read_prop (pc_description taskConfig)) ''Unnamed task''),
      t_type = Val (or_else (read_prop (pc_type taskConfig)) Custom),
      t_priority = Val (or_else (read_prop (pc_priority taskConfig)) Medium),
      t_assignedAgentId = None,
      t_status = Val Pending,
      t_dependencies = Val (or_else (read_prop (pc_dependencies taskConfig)) []),
      t_result = None,
      t_error = None,
      t_createdAt = Val now,
      t_startedAt = None,
      t_completedAt = None,
      t_estimatedDuration = None,
      t_actualDuration = None,
      t_parentTaskId = None,
      t_subtasks = Val []\<rparr>"

definition spread_task :: "task \<Rightarrow> task_config \<Rightarrow> task" where
  "spread_task b c =
     \<lparr>t_id = spread (t_id b) (pc_id c),
      t_description = spread (t_description b) (pc_description c),
      t_type = spread (t_type b) (pc_type c),
      t_priority = spread (t_priority b) (pc_priority c),
      t_assignedAgentId = spread_opt (t_assignedAgentId b) (pc_assignedAgentId c),
      t_status = spread (t_status b) (pc_status c),
      t_dependencies = spread (t_dependencies b) (pc_dependencies c),
      t_result = spread_opt (t_result b) (pc_result c),
      t_error = spread_opt (t_error b) (pc_error c),
      t_createdAt = spread (t_createdAt b) (pc_createdAt c),
      t_startedAt = spread_opt (t_startedAt b) (pc_startedAt c),
      t_completedAt = spread_opt (t_completedAt b) (pc_completedAt c),
      t_estimatedDuration = spread_opt (t_estimatedDuration b) (pc_estimatedDuration c),
      t_actualDuration = spread_opt (t_actualDuration b) (pc_actualDuration c),
      t_parentTaskId = spread_opt (t_parentTaskId b) (pc_parentTaskId c),
      t_subtasks = spread (t_subtasks b) (pc_subtasks c)\<rparr>"

definition createTask :: "string \<Rightarrow> task_config \<Rightarrow> orch \<Rightarrow> orch \<times> string" where
  "createTask taskId taskConfig s =
     (let task = spread_task (task_defaults taskId (clock s) taskConfig) taskConfig
      in (s\<lparr>tasks := AList.update taskId task (tasks s)\<rparr>, taskId))"

text \<open>The empty partial configuration \<open>{}\<close>.\<close>

definition empty_config :: task_config where
  "empty_config = \<lparr>pc_id = Absent, pc_description = Absent, pc_type = Absent,
     pc_priority = Absent, pc_assignedAgentId = Absent, pc_status = Absent,
     pc_dependencies = Absent, pc_result = Absent, pc_error = Absent, pc_createdAt = Absent,
     pc_startedAt = Absent, pc_completedAt = Absent, pc_estimatedDuration = Absent,
     pc_actualDuration = Absent, pc_parentTaskId = Absent, pc_subtasks = Absent\<rparr>"

subsection \<open>Agent registry\<close>

text \<open>\<open>String.prototype.toLowerCase\<close> on ASCII letters, and \<open>String.prototype.includes\<close>.\<close>

definition toLowerCase_char :: "char \<Rightarrow> char" where
  "toLowerCase_char c =
     (let n = of_char c :: nat in if 65 \<le> n \<and> n \<le> 90 then char_of (n + 32) else c)"

definition toLowerCase :: "string \<Rightarrow> string" where
  "toLowerCase s = map toLowerCase_char s"

fun str_includes :: "string \<Rightarrow> string \<Rightarrow> bool" where
  "str_includes [] sub = (sub = [])"
| "str_includes (c # cs) sub = (take (length sub) (c # cs) = sub \<or> str_includes cs sub)"

text \<open>
  \<^verbatim>\<open>
  if (!config.id || !config.name || !config.role) throw ...
  if (!config.capabilities || config.capabilities.length === 0) throw ...
  if (!config.systemPrompt) throw ...
  \<close>
\<close>

definition validateAgentConfig :: "agent_config \<Rightarrow> orch_error option" where
  "validateAgentConfig config =
     (if cfg_id config = [] \<or> cfg_name config = [] \<or> cfg_role config = []
        then Some MissingIdNameRole
      else if cfg_capabilities config = [] then Some NoCapability
      else if cfg_systemPrompt config = [] then Some NoSystemPrompt
      else None)"

definition deriveSpecializations :: "agent_config \<Rightarrow> string list" where
  "deriveSpecializations config =
     (if ''coding'' \<in> set (cfg_capabilities config) then [''software_development''] else []) @
     (if ''research'' \<in> set (cfg_capabilities config) then [''information_gathering''] else []) @
     (if ''analysis'' \<in> set (cfg_capabilities config) then [''data_analysis''] else []) @
     (if str_includes (toLowerCase (cfg_role config)) ''test'' then [''quality_assurance''] else []) @
     (if str_includes (toLowerCase (cfg_role config)) ''doc'' then [''technical_writing''] else [])"

text \<open>
  \<^verbatim>\<open>
  if (!this.collaborationGraph.has(fromAgentId)) this.collaborationGraph.set(fromAgentId, []);
  const collaborators = this.collaborationGraph.get(fromAgentId)!;
  if (!collaborators.includes(toAgentId)) collaborators.push(toAgentId);
  \<close>
\<close>

definition addCollaborationLink ::
  "string \<Rightarrow> string \<Rightarrow> (string \<times> string list) list \<Rightarrow> (string \<times> string list) list" where
  "addCollaborationLink fromAgentId toAgentId g =
     (let collaborators = (case map_of g fromAgentId of None \<Rightarrow> [] | Some cs \<Rightarrow> cs)
      in AList.update fromAgentId
           (if toAgentId \<in> set collaborators then collaborators else collaborators @ [toAgentId]) g)"

definition initialState :: "int \<Rightarrow> agent_config \<Rightarrow> agent_state" where
  "initialState now config =
     \<lparr>st_id = cfg_id config, st_status = Idle, st_currentTask = None, st_taskQueue = [],
      st_tasksCompleted = 0, st_tasksSuccessful = 0, st_averageTaskDuration = 0,
      st_lastActiveAt = now, st_capabilities = cfg_capabilities config,
      st_specializations = deriveSpecializations config\<rparr>"

definition createAgent :: "agent_config \<Rightarrow> orch \<Rightarrow> orch_error + orch" where
  "createAgent config s =
     (if map_of (agents s) (cfg_id config) \<noteq> None then Inl (AgentExists (cfg_id config))
      else case validateAgentConfig config of
        Some e \<Rightarrow> Inl e
      | None \<Rightarrow>
          Inr (s\<lparr>agents := AList.update (cfg_id config) config (agents s),
                 agentStates := AList.update (cfg_id config) (initialState (clock s) config)
                                  (agentStates s),
                 collaborationGraph :=
                   (if truthy (cfg_parentAgentId config)
                    then addCollaborationLink (the (cfg_parentAgentId config)) (cfg_id config)
                           (collaborationGraph s)
                    else collaborationGraph s)\<rparr>))"

subsection \<open>cancelTask and removeAgent\<close>

text \<open>\<open>const i = q.indexOf(x); if (i > -1) q.splice(i, 1)\<close> removes the first occurrence:
  this is \<open>remove1\<close>.\<close>

definition cancelTask :: "string \<Rightarrow> orch \<Rightarrow> orch \<times> bool" where
  "cancelTask taskId s =
     (case map_of (tasks s) taskId of
        None \<Rightarrow> (s, False)
      | Some task \<Rightarrow>
          let task' = task\<lparr>t_status := Val Cancelled, t_completedAt := Some (clock s)\<rparr>;
              s1 = s\<lparr>tasks := AList.update taskId task' (tasks s)\<rparr>
          in if truthy (t_assignedAgentId task) then
               (case map_of (agentStates s1) (the (t_assignedAgentId task)) of
                  None \<Rightarrow> (s1, True)
                | Some agentState \<Rightarrow>
                    let st1 = agentState\<lparr>st_taskQueue := remove1 taskId (st_taskQueue agentState)\<rparr>;
                        st2 = (if st_currentTask st1 = Some taskId
                               then st1\<lparr>st_currentTask := None, st_status := Idle\<rparr> else st1)
                    in (s1\<lparr>agentStates :=
                             AList.update (the (t_assignedAgentId task)) st2 (agentStates s1)\<rparr>, True))
             else (s1, True))"

definition removeAgent :: "string \<Rightarrow> orch \<Rightarrow> orch \<times> bool" where
  "removeAgent agentId s =
     (if map_of (agents s) agentId = None then (s, False)
      else
        let s1 = (case map_of (agentStates s) agentId of
                    None \<Rightarrow> s
                  | Some agentState \<Rightarrow>
                      if truthy (st_currentTask agentState)
                      then fst (cancelTask (the (st_currentTask agentState)) s) else s);
            g = map (\<lambda>(k, collaborators). (k, remove1 agentId collaborators))
                  (AList.delete agentId (collaborationGraph s1))
        in (s1\<lparr>collaborationGraph := g,
                agents := AList.delete agentId (agents s1),
                agentStates := AList.delete agentId (agentStates s1)\<rparr>, True))"

subsection \<open>Agent selection\<close>

text \<open>The two \<open>switch (task.type)\<close> tables have no \<open>default\<close>: \<open>'custom'\<close> and a type
  that is \<open>undefined\<close> or \<open>null\<close> leave the list empty.\<close>

fun requiredCapabilities :: "task_type \<Rightarrow> string list" where
  "requiredCapabilities Research = [''research'', ''web_browsing'', ''data_collection'']"
| "requiredCapabilities Analysis = [''analysis'', ''data_processing'', ''reasoning'']"
| "requiredCapabilities Coding = [''coding'', ''programming'', ''software_development'']"
| "requiredCapabilities Testing = [''testing'', ''quality_assurance'', ''debugging'']"
| "requiredCapabilities Documentation = [''documentation'', ''writing'', ''technical_writing'']"
| "requiredCapabilities Planning = [''planning'', ''project_management'', ''strategy'']"
| "requiredCapabilities Custom = []"

definition getTaskRequiredCapabilities :: "task \<Rightarrow> string list" where
  "getTaskRequiredCapabilities task =
     (case t_type task of Val ty \<Rightarrow> requiredCapabilities ty | JsUndefined \<Rightarrow> [] | JsNull \<Rightarrow> [])"

fun requiredSpecializations :: "task_type \<Rightarrow> string list" where
  "requiredSpecializations Research = [''information_gathering'', ''data_analysis'']"
| "requiredSpecializations Analysis = [''data_analysis'', ''statistical_analysis'']"
| "requiredSpecializations Coding = [''software_development'', ''programming'']"
| "requiredSpecializations Testing = [''quality_assurance'', ''test_automation'']"
| "requiredSpecializations Documentation = [''technical_writing'', ''documentation'']"
| "requiredSpecializations Planning = [''project_management'', ''strategic_planning'']"
| "requiredSpecializations Custom = []"

definition getTaskRequiredSpecializations :: "task \<Rightarrow> string list" where
  "getTaskRequiredSpecializations task =
     (case t_type task of Val ty \<Rightarrow> requiredSpecializations ty | JsUndefined \<Rightarrow> [] | JsNull \<Rightarrow> [])"

text \<open>
  The score of one candidate, in the order the source adds its terms:
  \<^verbatim>\<open>
  score += matchingCapabilities.length * 10;
  score += matchingSpecializations.length * 15;
  if (agent.state.performance.tasksSuccessful > 0) {
    const successRate = tasksSuccessful / tasksCompleted;
    score += successRate * 5;
  }
  if (agent.config.priority === task.priority) score += 5;
  score -= agent.state.taskQueue.length * 2;
  \<close>
  With \<open>tasksSuccessful > 0\<close> and \<open>tasksCompleted = 0\<close> JavaScript computes \<open>Infinity\<close>,
  which a rational cannot hold; no operation produces such a state (both counters are
  incremented together), and the theorems about the score exclude it by hypothesis.
\<close>

definition agentScore :: "task \<Rightarrow> agent_config \<Rightarrow> agent_state \<Rightarrow> rat" where
  "agentScore task config state =
     (let matchingCapabilities =
            filter (\<lambda>cap. cap \<in> set (getTaskRequiredCapabilities task)) (cfg_capabilities config);
          score1 = of_nat (length matchingCapabilities) * 10;
          matchingSpecializations =
            filter (\<lambda>spec. spec \<in> set (getTaskRequiredSpecializations task))
              (st_specializations state);
          score2 = score1 + of_nat (length matchingSpecializations) * 15;
          score3 = (if st_tasksSuccessful state > 0
                    then score2 + (of_nat (st_tasksSuccessful state) /
                                   of_nat (st_tasksCompleted state)) * 5
                    else score2);
          score4 = (if cfg_priority config = t_priority task then score3 + 5 else score3)
      in score4 - of_nat (length (st_taskQueue state)) * 2)"

text \<open>
  \<^verbatim>\<open>
  const availableAgents = Array.from(this.agentStates.entries())
    .filter(([_, state]) => state.status === 'idle')
    .map(([id, state]) => ({ id, state, config: this.agents.get(id)! }));
  if (availableAgents.length === 0) return null;
  const scoredAgents = availableAgents.map(agent => { ... return { ...agent, score }; });
  scoredAgents.sort((a, b) => b.score - a.score);
  return scoredAgents[0]?.id || null;
  \<close>
  \<open>Array.prototype.sort\<close> is stable, and so is \<open>sort_key\<close>: sorting by descending score
  is sorting by the key \<open>- score\<close>. Reading \<open>agent.config.capabilities\<close> of an agent
  without configuration raises a \<open>TypeError\<close>. An empty id is falsy, so \<open>|| null\<close>
  turns it into \<open>null\<close>.
\<close>

definition availableAgents :: "orch \<Rightarrow> (string \<times> agent_state) list" where
  "availableAgents s = filter (\<lambda>(aid, state). st_status state = Idle) (agentStates s)"

definition findBestAgent :: "task \<Rightarrow> orch \<Rightarrow> orch_error + string option" where
  "findBestAgent task s =
     (let available = availableAgents s
      in if available = [] then Inr None
         else if \<exists>(aid, state) \<in> set available. map_of (agents s) aid = None then Inl TypeError
         else
           let scoredAgents =
                 map (\<lambda>(aid, state). (aid, agentScore task (the (map_of (agents s) aid)) state))
                   available;
               sorted = sort_key (\<lambda>(aid, score). - score) scoredAgents
           in Inr (if fst (hd sorted) = [] then None else Some (fst (hd sorted))))"

subsection \<open>assignTask\<close>

text \<open>
  \<^verbatim>\<open>
  for (const depId of task.dependencies) {
    const depTask = this.tasks.get(depId);
    if (!depTask || depTask.status !== 'completed') unmetDependencies.push(depId);
  }
  \<close>
  Iterating over \<open>undefined\<close> or \<open>null\<close> raises a \<open>TypeError\<close>.
\<close>

definition unmet :: "orch \<Rightarrow> string \<Rightarrow> bool" where
  "unmet s depId =
     (case map_of (tasks s) depId of
        None \<Rightarrow> True
      | Some depTask \<Rightarrow> t_status depTask \<noteq> Val Completed)"

definition checkTaskDependencies :: "task \<Rightarrow> orch \<Rightarrow> orch_error + string list" where
  "checkTaskDependencies task s =
     (case t_dependencies task of
        Val dependencies \<Rightarrow> Inr (filter (unmet s) dependencies)
      | JsUndefined \<Rightarrow> Inl TypeError
      | JsNull \<Rightarrow> Inl TypeError)"

text \<open>The agent that \<open>assignTask\<close> settles on before it looks at the dependencies:
  \<^verbatim>\<open>
  if (!agentId) {
    agentId = await this.findBestAgent(task);
    if (!agentId) throw new Error('No suitable agent found for task');
  }
  const agentState = this.agentStates.get(agentId);
  if (!agentState) throw new Error(`Agent ${agentId} not found`);
  \<close>
\<close>

definition resolveAgent :: "task \<Rightarrow> string option \<Rightarrow> orch \<Rightarrow> orch_error + string" where
  "resolveAgent task agentId s =
     (case (if truthy agentId then Inr (the agentId)
            else case findBestAgent task s of
                   Inl e \<Rightarrow> Inl e
                 | Inr None \<Rightarrow> Inl NoSuitableAgent
                 | Inr (Some best) \<Rightarrow> Inr best) of
        Inl e \<Rightarrow> Inl e
      | Inr aid \<Rightarrow>
          (case map_of (agentStates s) aid of
             None \<Rightarrow> Inl (AgentNotFound aid)
           | Some agentState \<Rightarrow> Inr aid))"

definition assignTask :: "string \<Rightarrow> string option \<Rightarrow> orch \<Rightarrow> orch_error + orch" where
  "assignTask taskId agentId s =
     (case map_of (tasks s) taskId of
        None \<Rightarrow> Inl (TaskNotFound taskId)
      | Some task \<Rightarrow>
          if t_status task \<noteq> Val Pending then Inl (TaskNotPending taskId)
          else case resolveAgent task agentId s of
            Inl e \<Rightarrow> Inl e
          | Inr aid \<Rightarrow>
              let agentState = the (map_of (agentStates s) aid)
              in case checkTaskDependencies task s of
                   Inl e \<Rightarrow> Inl e
                 | Inr unmetDependencies \<Rightarrow>
                     if unmetDependencies \<noteq> [] then Inl (UnmetDependencies unmetDependencies)
                     else Inr (s\<lparr>tasks := AList.update taskId
                                        (task\<lparr>t_assignedAgentId := Some aid, t_status := Val Assigned\<rparr>)
                                        (tasks s),
                                 agentStates := AList.update aid
                                        (agentState\<lparr>st_taskQueue := st_taskQueue agentState @ [taskId]\<rparr>)
                                        (agentStates s)\<rparr>))"

subsection \<open>executeTask\<close>

text \<open>
  An execution strategy is an external collaborator: given the task and the agent it
  takes some time and then returns a result or throws. The model receives it as a
  function that yields the elapsed milliseconds and the outcome. \<open>executeTask\<close> is
  modelled as one atomic step: what other callers could do while the strategy is
  awaited is outside the model.
\<close>

type_synonym strategy = "task \<Rightarrow> agent_config \<Rightarrow> int \<times> (js_throw + result)"

text \<open>
  \<^verbatim>\<open>
  const agent = this.agents.get(task.assignedAgentId!);
  if (!agent) throw new Error('Agent not found');
  switch (task.type) { case 'research': return await this.executeResearchTask(task, agent); ... }
  \<close>
\<close>

definition executeTaskByType :: "strategy \<Rightarrow> task \<Rightarrow> orch \<Rightarrow> int \<times> (js_throw + result)" where
  "executeTaskByType strat task s =
     (case map_of (agents s) (the (t_assignedAgentId task)) of
        None \<Rightarrow> (0, Inl (JsError ''Agent not found''))
      | Some agent \<Rightarrow> strat task agent)"

text \<open>The \<open>try\<close> block after the strategy returned \<open>result\<close>; \<open>task\<close> and
  \<open>agentState\<close> are the objects as the statements before the \<open>await\<close> left them,
  \<open>now\<close> is the time of return.
  \<open>if (task.actualDuration)\<close> skips the running average when the duration is zero.\<close>

definition executeTask_success ::
  "string \<Rightarrow> string \<Rightarrow> task \<Rightarrow> agent_state \<Rightarrow> int \<Rightarrow> result \<Rightarrow> orch \<Rightarrow> orch" where
  "executeTask_success taskId aid task agentState now result s =
     (let actualDuration = now - the (t_startedAt task);
          task' = task\<lparr>t_status := Val Completed, t_completedAt := Some now, t_result := Some result,
                       t_actualDuration := Some actualDuration\<rparr>;
          completed = Suc (st_tasksCompleted agentState);
          agentState' = agentState
            \<lparr>st_status := Idle, st_currentTask := None,
             st_tasksCompleted := completed,
             st_tasksSuccessful := Suc (st_tasksSuccessful agentState),
             st_averageTaskDuration :=
               (if actualDuration \<noteq> 0
                then (st_averageTaskDuration agentState * of_nat (completed - 1)
                        + of_int actualDuration) / of_nat completed
                else st_averageTaskDuration agentState),
             st_taskQueue := remove1 taskId (st_taskQueue agentState)\<rparr>
      in s\<lparr>tasks := AList.update taskId task' (tasks s),
            agentStates := AList.update aid agentState' (agentStates s),
            clock := now\<rparr>)"

text \<open>The \<open>catch\<close> block: \<open>error instanceof Error ? error.message : 'Unknown error'\<close>.\<close>

fun error_message :: "js_throw \<Rightarrow> string" where
  "error_message (JsError msg) = msg"
| "error_message (JsOther v) = ''Unknown error''"

definition executeTask_failure ::
  "string \<Rightarrow> string \<Rightarrow> task \<Rightarrow> agent_state \<Rightarrow> int \<Rightarrow> js_throw \<Rightarrow> orch \<Rightarrow> orch" where
  "executeTask_failure taskId aid task agentState now err s =
     (let task' = task\<lparr>t_status := Val Failed, t_error := Some (error_message err),
                       t_completedAt := Some now\<rparr>;
          agentState' = agentState
            \<lparr>st_status := Idle, st_currentTask := None,
             st_tasksCompleted := Suc (st_tasksCompleted agentState),
             st_taskQueue := remove1 taskId (st_taskQueue agentState)\<rparr>
      in s\<lparr>tasks := AList.update taskId task' (tasks s),
            agentStates := AList.update aid agentState' (agentStates s),
            clock := now\<rparr>)"

definition executeTask :: "strategy \<Rightarrow> string \<Rightarrow> orch \<Rightarrow> orch \<times> (orch_error + result)" where
  "executeTask strat taskId s =
     (case map_of (tasks s) taskId of
        None \<Rightarrow> (s, Inl (TaskNotFoundOrNotAssigned taskId))
      | Some task \<Rightarrow>
          if \<not> truthy (t_assignedAgentId task) then (s, Inl (TaskNotFoundOrNotAssigned taskId))
          else
            let aid = the (t_assignedAgentId task)
            in case map_of (agentStates s) aid of
                 None \<Rightarrow> (s, Inl (AgentNotFound aid))
               | Some agentState \<Rightarrow>
                   let task1 = task\<lparr>t_status := Val In_progress, t_startedAt := Some (clock s)\<rparr>;
                       agentState1 = agentState\<lparr>st_status := Busy, st_currentTask := Some taskId\<rparr>;
                       s1 = s\<lparr>tasks := AList.update taskId task1 (tasks s),
                              agentStates := AList.update aid agentState1 (agentStates s)\<rparr>
                   in case executeTaskByType strat task1 s1 of
                        (d, Inr result) \<Rightarrow>
                          (executeTask_success taskId aid task1 agentState1 (clock s + d) result s1,
                           Inr result)
                      | (d, Inl err) \<Rightarrow>
                          (executeTask_failure taskId aid task1 agentState1 (clock s + d) err s1,
                           Inl (Thrown err)))"

subsection \<open>Collaboration\<close>

text \<open>
  \<^verbatim>\<open>
  for (let i = 0; i < agentIds.length; i++)
    for (let j = i + 1; j < agentIds.length; j++) {
      this.addCollaborationLink(agentIds[i], agentIds[j]);
      this.addCollaborationLink(agentIds[j], agentIds[i]);
    }
  \<close>
\<close>

fun linkAll :: "string list \<Rightarrow> (string \<times> string list) list \<Rightarrow> (string \<times> string list) list" where
  "linkAll [] g = g"
| "linkAll (a # rest) g =
     linkAll rest
       (foldl (\<lambda>g' b. addCollaborationLink b a (addCollaborationLink a b g')) g rest)"

definition createCollaborationLinks :: "string list \<Rightarrow> orch \<Rightarrow> orch_error + orch" where
  "createCollaborationLinks agentIds s =
     (case find (\<lambda>agentId. map_of (agents s) agentId = None) agentIds of
        Some agentId \<Rightarrow> Inl (AgentNotFound agentId)
      | None \<Rightarrow> Inr (s\<lparr>collaborationGraph := linkAll agentIds (collaborationGraph s)\<rparr>))"

text \<open>The generated id \<open>collab_<Date.now()>_<random>\<close> is an input; it is returned and
  stored nowhere.\<close>

definition createCollaboration ::
  "string \<Rightarrow> string list \<Rightarrow> orch \<Rightarrow> orch_error + (orch \<times> string)" where
  "createCollaboration collaborationId agentIds s =
     (case createCollaborationLinks agentIds s of
        Inl e \<Rightarrow> Inl e
      | Inr s' \<Rightarrow> Inr (s', collaborationId))"

subsection \<open>Message bus\<close>

definition handleTaskAssignmentMessage :: "agent_message \<Rightarrow> orch \<Rightarrow> orch_error + orch" where
  "handleTaskAssignmentMessage message s =
     (let taskId = c_taskId (m_content message)
      in if truthy taskId \<and> map_of (tasks s) (the taskId) \<noteq> None
         then assignTask (the taskId) (Some (m_toAgentId message)) s
         else Inr s)"

definition handleTaskResultMessage :: "agent_message \<Rightarrow> orch \<Rightarrow> orch_error + orch" where
  "handleTaskResultMessage message s =
     (let taskId = c_taskId (m_content message)
      in if truthy taskId \<and> map_of (tasks s) (the taskId) \<noteq> None
         then Inr (s\<lparr>tasks := AList.update (the taskId)
                       ((the (map_of (tasks s) (the taskId)))
                          \<lparr>t_result := c_result (m_content message), t_status := Val Completed\<rparr>)
                       (tasks s)\<rparr>)
         else Inr s)"

definition handleCollaborationRequestMessage :: "agent_message \<Rightarrow> orch \<Rightarrow> orch_error + orch" where
  "handleCollaborationRequestMessage message s =
     createCollaborationLinks [m_fromAgentId message, m_toAgentId message] s"

definition handleStatusUpdateMessage :: "agent_message \<Rightarrow> orch \<Rightarrow> orch_error + orch" where
  "handleStatusUpdateMessage message s =
     (case map_of (agentStates s) (m_fromAgentId message) of
        None \<Rightarrow> Inr s
      | Some agentState \<Rightarrow>
          Inr (s\<lparr>agentStates := AList.update (m_fromAgentId message)
                   (agentState\<lparr>st_lastActiveAt := clock s\<rparr>) (agentStates s)\<rparr>))"

definition handleErrorReportMessage :: "agent_message \<Rightarrow> orch \<Rightarrow> orch_error + orch" where
  "handleErrorReportMessage message s =
     (let taskId = c_taskId (m_content message)
      in if truthy taskId \<and> map_of (tasks s) (the taskId) \<noteq> None
         then Inr (s\<lparr>tasks := AList.update (the taskId)
                       ((the (map_of (tasks s) (the taskId)))
                          \<lparr>t_status := Val Failed, t_error := c_error (m_content message)\<rparr>)
                       (tasks s)\<rparr>)
         else Inr s)"

definition processMessage :: "agent_message \<Rightarrow> orch \<Rightarrow> orch_error + orch" where
  "processMessage message s =
     (case map_of (agentStates s) (m_toAgentId message) of
        None \<Rightarrow> Inr s
      | Some toAgent \<Rightarrow>
          (case m_type message of
             Task_assignment \<Rightarrow> handleTaskAssignmentMessage message s
           | Task_result \<Rightarrow> handleTaskResultMessage message s
           | Collaboration_request \<Rightarrow> handleCollaborationRequestMessage message s
           | Status_update \<Rightarrow> handleStatusUpdateMessage message s
           | Error_report \<Rightarrow> handleErrorReportMessage message s))"

text \<open>\<open>Omit<AgentMessage, 'id' | 'timestamp'>\<close>, the argument of \<open>sendMessage\<close>.\<close>

record message_input =
  mi_fromAgentId :: string
  mi_toAgentId :: string
  mi_type :: message_type
  mi_content :: message_content
  mi_priority :: priority

text \<open>
  \<^verbatim>\<open>
  const fullMessage = { id: messageId, timestamp: new Date().toISOString(), ...message };
  this.messageQueue.push(fullMessage);
  // Process message immediately if agents are available
  await this.processMessage(fullMessage);
  return messageId;
  \<close>
  A handler that throws does so before it changes anything, so the state the caller
  is left with after an exception is the state with the message enqueued.
\<close>

definition sendMessage :: "string \<Rightarrow> message_input \<Rightarrow> orch \<Rightarrow> orch \<times> (orch_error + string)" where
  "sendMessage messageId message s =
     (let fullMessage = \<lparr>m_id = messageId, m_fromAgentId = mi_fromAgentId message,
                          m_toAgentId = mi_toAgentId message, m_type = mi_type message,
                          m_content = mi_content message, m_timestamp = clock s,
                          m_priority = mi_priority message\<rparr>;
          s1 = s\<lparr>messageQueue := messageQueue s @ [fullMessage]\<rparr>
      in case processMessage fullMessage s1 of
           Inl e \<Rightarrow> (s1, Inl e)
         | Inr s2 \<Rightarrow> (s2, Inr messageId))"

subsection \<open>The orchestrator tick\<close>

text \<open>A \<open>try { ... } catch (error) { console.error(...) }\<close> around one item: the
  exception is logged and the state is as before the item.\<close>

definition caught :: "orch \<Rightarrow> orch_error + orch \<Rightarrow> orch" where
  "caught s r = (case r of Inl e \<Rightarrow> s | Inr s' \<Rightarrow> s')"

fun priorityOrder :: "priority \<Rightarrow> int" where
  "priorityOrder Critical = 4"
| "priorityOrder High = 3"
| "priorityOrder Medium = 2"
| "priorityOrder Low = 1"

text \<open>
  \<^verbatim>\<open>
  const pendingTasks = Array.from(this.tasks.values())
    .filter(task => task.status === 'pending')
    .sort((a, b) => priorityOrder[b.priority] - priorityOrder[a.priority]);
  \<close>
  The sort is stable and descending in \<open>priorityOrder\<close>. A priority that is \<open>undefined\<close>
  or \<open>null\<close> has no entry in \<open>priorityOrder\<close>; the difference is then \<open>NaN\<close>, which \<open>sort\<close>
  takes for equal, the comparison is no longer consistent and ECMAScript leaves the
  resulting order to the engine. The model puts such tasks behind the others.
\<close>

fun priorityKey :: "priority js \<Rightarrow> int" where
  "priorityKey (Val p) = - priorityOrder p"
| "priorityKey JsUndefined = 0"
| "priorityKey JsNull = 0"

definition pendingTasks :: "orch \<Rightarrow> task list" where
  "pendingTasks s =
     sort_key (\<lambda>task. priorityKey (t_priority task))
       (filter (\<lambda>task. t_status task = Val Pending) (map snd (tasks s)))"

text \<open>
  \<^verbatim>\<open>
  try {
    const unmetDependencies = await this.checkTaskDependencies(task);
    if (unmetDependencies.length === 0) await this.assignTask(task.id);
  } catch (error) { console.error(...); }
  \<close>
  The keys of \<open>tasks\<close> are strings, so \<open>assignTask\<close> of an id that is \<open>undefined\<close> or
  \<open>null\<close> finds no task and throws.
\<close>

definition processPendingTask :: "orch \<Rightarrow> task \<Rightarrow> orch" where
  "processPendingTask s task =
     (case checkTaskDependencies task s of
        Inl e \<Rightarrow> s
      | Inr unmetDependencies \<Rightarrow>
          if unmetDependencies = [] then
            (case t_id task of
               Val taskId \<Rightarrow> caught s (assignTask taskId None s)
             | JsUndefined \<Rightarrow> s
             | JsNull \<Rightarrow> s)
          else s)"

definition processPendingTasks :: "orch \<Rightarrow> orch" where
  "processPendingTasks s = foldl processPendingTask s (pendingTasks s)"

definition processMessageQueue :: "orch \<Rightarrow> orch" where
  "processMessageQueue s =
     foldl (\<lambda>s' message. caught s' (processMessage message s'))
       (s\<lparr>messageQueue := []\<rparr>) (messageQueue s)"

text \<open>One iteration of the loop of \<open>updateAgentStates\<close>, for the entry with key \<open>agentId\<close>:
  \<^verbatim>\<open>
  if (state.status === 'idle' && state.taskQueue.length > 0) {
    const nextTaskId = state.taskQueue[0];
    const task = this.tasks.get(nextTaskId);
    if (task && task.status === 'assigned') {
      try { await this.executeTask(nextTaskId); } catch (error) { console.error(...); }
    }
  }
  \<close>
\<close>

definition updateAgentState :: "strategy \<Rightarrow> orch \<Rightarrow> string \<Rightarrow> orch" where
  "updateAgentState strat s agentId =
     (case map_of (agentStates s) agentId of
        None \<Rightarrow> s
      | Some state \<Rightarrow>
          if st_status state = Idle \<and> st_taskQueue state \<noteq> [] then
            let nextTaskId = hd (st_taskQueue state)
            in (case map_of (tasks s) nextTaskId of
                  None \<Rightarrow> s
                | Some task \<Rightarrow>
                    if t_status task = Val Assigned then fst (executeTask strat nextTaskId s) else s)
          else s)"

definition updateAgentStates :: "strategy \<Rightarrow> orch \<Rightarrow> orch" where
  "updateAgentStates strat s = foldl (updateAgentState strat) s (map fst (agentStates s))"

text \<open>\<open>agent?.timeout || 300000\<close>: a missing agent, a missing timeout and a timeout of
  zero all give the default.\<close>

definition agentTimeout :: "task \<Rightarrow> orch \<Rightarrow> int" where
  "agentTimeout task s =
     (case t_assignedAgentId task of
        None \<Rightarrow> 300000
      | Some aid \<Rightarrow>
          (case map_of (agents s) aid of
             None \<Rightarrow> 300000
           | Some agent \<Rightarrow>
               (case cfg_timeout agent of
                  None \<Rightarrow> 300000
                | Some t \<Rightarrow> if t = 0 then 300000 else t)))"

definition handleTimeout :: "int \<Rightarrow> orch \<Rightarrow> string \<Rightarrow> orch" where
  "handleTimeout now s taskId =
     (case map_of (tasks s) taskId of
        None \<Rightarrow> s
      | Some task \<Rightarrow>
          (case t_startedAt task of
             None \<Rightarrow> s
           | Some startTime \<Rightarrow>
               if t_status task = Val In_progress \<and> now - startTime > agentTimeout task s
               then fst (cancelTask taskId s) else s))"

definition handleTimeouts :: "orch \<Rightarrow> orch" where
  "handleTimeouts s = foldl (handleTimeout (clock s)) s (map fst (tasks s))"

text \<open>
  \<^verbatim>\<open>
  const agentLoads = Array.from(this.agentStates.entries())
    .map(([id, state]) => ({ id, load: state.taskQueue.length, status: state.status }))
    .filter(agent => agent.status !== 'offline');
  if (agentLoads.length < 2) return;
  agentLoads.sort((a, b) => a.load - b.load);
  const lightestAgent = agentLoads[0];
  const heaviestAgent = agentLoads[agentLoads.length - 1];
  if (heaviestAgent.load - lightestAgent.load > 3) {
    const heaviestState = this.agentStates.get(heaviestAgent.id)!;
    const taskToMove = heaviestState.taskQueue.pop();
    if (taskToMove) { ... }
  }
  \<close>
  \<open>pop\<close> shortens the heaviest queue even when the popped id is the empty string.
\<close>

definition agentLoads :: "orch \<Rightarrow> (string \<times> nat) list" where
  "agentLoads s =
     map (\<lambda>(aid, state). (aid, length (st_taskQueue state)))
       (filter (\<lambda>(aid, state). st_status state \<noteq> Offline) (agentStates s))"

definition moveTask :: "string \<Rightarrow> string \<Rightarrow> orch \<Rightarrow> orch" where
  "moveTask heaviestId lightestId s =
     (let heaviestState = the (map_of (agentStates s) heaviestId);
          taskToMove = last (st_taskQueue heaviestState);
          s1 = s\<lparr>agentStates := AList.update heaviestId
                     (heaviestState\<lparr>st_taskQueue := butlast (st_taskQueue heaviestState)\<rparr>)
                     (agentStates s)\<rparr>
      in if taskToMove \<noteq> [] then
           let lightestState = the (map_of (agentStates s1) lightestId);
               s2 = s1\<lparr>agentStates := AList.update lightestId
                          (lightestState\<lparr>st_taskQueue := st_taskQueue lightestState @ [taskToMove]\<rparr>)
                          (agentStates s1)\<rparr>
           in (case map_of (tasks s2) taskToMove of
                 None \<Rightarrow> s2
               | Some task \<Rightarrow>
                   s2\<lparr>tasks := AList.update taskToMove
                                  (task\<lparr>t_assignedAgentId := Some lightestId\<rparr>) (tasks s2)\<rparr>)
         else s1)"

definition optimizeTaskDistribution :: "orch \<Rightarrow> orch" where
  "optimizeTaskDistribution s =
     (let loads = agentLoads s
      in if length loads < 2 then s
         else
           let sorted = sort_key snd loads;
               lightestAgent = hd sorted;
               heaviestAgent = last sorted
           in if int (snd heaviestAgent) - int (snd lightestAgent) > 3
              then moveTask (fst heaviestAgent) (fst lightestAgent) s
              else s)"

definition orchestratorTick :: "strategy \<Rightarrow> orch \<Rightarrow> orch" where
  "orchestratorTick strat s =
     optimizeTaskDistribution
       (handleTimeouts
          (updateAgentStates strat
             (processMessageQueue
                (processPendingTasks s))))"

subsection \<open>The orchestrator as a state machine\<close>

text \<open>The operations of the orchestrator, with the values the environment supplies
  (generated ids, elapsed time). An operation that throws leaves the state it had
  reached.\<close>

datatype op =
    CreateAgent agent_config
  | RemoveAgent string
  | CreateTask string task_config
  | AssignTask string "string option"
  | ExecuteTask string
  | CancelTask string
  | CreateCollaboration "string list"
  | SendMessage string message_input
  | Tick
  | AdvanceClock nat

fun step :: "strategy \<Rightarrow> op \<Rightarrow> orch \<Rightarrow> orch" where
  "step strat (CreateAgent config) s = caught s (createAgent config s)"
| "step strat (RemoveAgent agentId) s = fst (removeAgent agentId s)"
| "step strat (CreateTask taskId taskConfig) s = fst (createTask taskId taskConfig s)"
| "step strat (AssignTask taskId agentId) s = caught s (assignTask taskId agentId s)"
| "step strat (ExecuteTask taskId) s = fst (executeTask strat taskId s)"
| "step strat (CancelTask taskId) s = fst (cancelTask taskId s)"
| "step strat (CreateCollaboration agentIds) s = caught s (createCollaborationLinks agentIds s)"
| "step strat (SendMessage messageId message) s = fst (sendMessage messageId message s)"
| "step strat Tick s = orchestratorTick strat s"
| "step strat (AdvanceClock d) s = s\<lparr>clock := clock s + int d\<rparr>"

text \<open>\<open>createTask\<close> draws its id from the time and a random suffix; a run in which every
  drawn id is new is a run with fresh ids.\<close>

fun fresh_id :: "op \<Rightarrow> orch \<Rightarrow> bool" where
  "fresh_id (CreateTask taskId taskConfig) s = (map_of (tasks s) taskId = None)"
| "fresh_id other s = True"

fun run :: "strategy \<Rightarrow> op list \<Rightarrow> orch \<Rightarrow> orch" where
  "run strat [] s = s"
| "run strat (x # xs) s = run strat xs (step strat x s)"

fun fresh_run :: "strategy \<Rightarrow> op list \<Rightarrow> orch \<Rightarrow> bool" where
  "fresh_run strat [] s = True"
| "fresh_run strat (x # xs) s = (fresh_id x s \<and> fresh_run strat xs (step strat x s))"

section \<open>Resource manager (src/autonomous-ai-server/src/resource-manager.ts)\<close>

text \<open>
  The resource manager writes JSON and text files through \<open>fs-extra\<close>. A file system is
  a map from paths to directory entries, with the time of the last modification of each
  and the paths at which a write fails (a read-only or full disk, a missing
  directory). A file written by \<open>writeJson\<close> and read by \<open>readJson\<close> holds a JSON value.
  The functions of \<open>fs-extra\<close>, \<open>path\<close> and \<open>JSON\<close> are library code, on a POSIX system; they
  are modelled as the library documents them (\<open>path.join\<close> as \<open>lib/path.js\<close> of Node.js
  computes it).
\<close>

text \<open>A JavaScript number: a finite one, as an exact rational (\<open>-0\<close> is not told from
  \<open>0\<close>), or one of the three that are not finite. \<open>JSON.stringify\<close> writes a number that
  is not finite as \<open>null\<close>.\<close>

datatype js_number = Finite rat | NaN | Infinity | Minus_infinity

datatype json = JNull | JBool bool | JNum rat | JStr string | JArr "json list"
  | JObj "(string \<times> json) list"

fun json_of_number :: "js_number \<Rightarrow> json" where
  "json_of_number (Finite x) = JNum x"
| "json_of_number NaN = JNull"
| "json_of_number Infinity = JNull"
| "json_of_number Minus_infinity = JNull"

text \<open>A JavaScript value of type \<open>any\<close> as \<open>JSON.stringify\<close> sees it: \<open>undefined\<close>
  (the property is left out), a value that has a JSON form, or a value on which
  \<open>JSON.stringify\<close> throws (a cyclic structure).\<close>

datatype js_any = Undefined | Plain json | Cyclic

datatype file_content = JsonFile json | TextFile string | Directory

datatype io_error = WriteFailed string | ReadFailed string | NotSerializable

record filesystem =
  files :: "string \<Rightarrow> file_content option"
  mtime :: "string \<Rightarrow> nat"
  unwritable :: "string \<Rightarrow> bool"

text \<open>\<open>JSON.stringify\<close> of an object given by its properties in order.\<close>

fun stringify :: "(string \<times> js_any) list \<Rightarrow> (string \<times> json) list option" where
  "stringify [] = Some []"
| "stringify ((k, Undefined) # ps) = stringify ps"
| "stringify ((k, Cyclic) # ps) = None"
| "stringify ((k, Plain j) # ps) =
     (case stringify ps of None \<Rightarrow> None | Some js \<Rightarrow> Some ((k, j) # js))"

text \<open>A write at time \<open>now\<close>: the entry is replaced and its modification time set.\<close>

definition put :: "string \<Rightarrow> file_content \<Rightarrow> nat \<Rightarrow> filesystem \<Rightarrow> filesystem" where
  "put path content now fsys =
     fsys\<lparr>files := (files fsys)(path \<mapsto> content), mtime := (mtime fsys)(path := now)\<rparr>"

definition writeJson ::
  "string \<Rightarrow> (string \<times> js_any) list \<Rightarrow> nat \<Rightarrow> filesystem \<Rightarrow> io_error + filesystem" where
  "writeJson path props now fsys =
     (case stringify props of
        None \<Rightarrow> Inl NotSerializable
      | Some js \<Rightarrow>
          if unwritable fsys path then Inl (WriteFailed path)
          else Inr (put path (JsonFile (JObj js)) now fsys))"

definition writeFile :: "string \<Rightarrow> string \<Rightarrow> nat \<Rightarrow> filesystem \<Rightarrow> io_error + filesystem" where
  "writeFile path content now fsys =
     (if unwritable fsys path then Inl (WriteFailed path)
      else Inr (put path (TextFile content) now fsys))"

definition copy :: "string \<Rightarrow> string \<Rightarrow> nat \<Rightarrow> filesystem \<Rightarrow> io_error + filesystem" where
  "copy src dest now fsys =
     (case files fsys src of
        None \<Rightarrow> Inl (ReadFailed src)
      | Some f \<Rightarrow>
          if unwritable fsys dest then Inl (WriteFailed dest)
          else Inr (put dest f now fsys))"

text \<open>\<open>fs.stat(path).mtime.getTime()\<close> throws when nothing is at \<open>path\<close>.\<close>

definition stat_mtime :: "string \<Rightarrow> filesystem \<Rightarrow> io_error + nat" where
  "stat_mtime path fsys =
     (case files fsys path of
        None \<Rightarrow> Inl (ReadFailed path)
      | Some f \<Rightarrow> Inr (mtime fsys path))"

text \<open>\<open>fs.remove(path)\<close> deletes the entry at \<open>path\<close> and, when it is a directory,
  everything below it; it does nothing when there is no such entry.\<close>

definition below :: "string \<Rightarrow> string \<Rightarrow> bool" where
  "below path q \<longleftrightarrow> q = path \<or> take (length path + 1) q = path @ ''/''"

definition remove :: "string \<Rightarrow> filesystem \<Rightarrow> io_error + filesystem" where
  "remove path fsys =
     (if files fsys path = None then Inr fsys
      else if unwritable fsys path then Inl (WriteFailed path)
      else Inr (fsys\<lparr>files := (\<lambda>q. if below path q then None else files fsys q)\<rparr>))"

definition pathExists :: "string \<Rightarrow> filesystem \<Rightarrow> bool" where
  "pathExists path fsys = (files fsys path \<noteq> None)"

definition readJson :: "string \<Rightarrow> filesystem \<Rightarrow> io_error + json" where
  "readJson path fsys =
     (case files fsys path of
        Some (JsonFile j) \<Rightarrow> Inr j
      | Some (TextFile t) \<Rightarrow> Inl (ReadFailed path)
      | Some Directory \<Rightarrow> Inl (ReadFailed path)
      | None \<Rightarrow> Inl (ReadFailed path))"

text \<open>Property access \<open>obj.key\<close> on a parsed JSON value.\<close>

fun jfield :: "json \<Rightarrow> string \<Rightarrow> json option" where
  "jfield (JObj ps) k = map_of ps k"
| "jfield other k = None"

text \<open>
  \<open>path.join(a, b)\<close> joins the arguments that are not empty with a separator and
  normalises the result (\<open>path.normalize\<close>): empty segments and \<open>.\<close> are dropped, \<open>..\<close> takes
  the segment before it away (and stays when there is none and the path is relative),
  a leading and a trailing separator are kept.
\<close>

text \<open>The segments of a path, the pieces between its separators; \<open>segment\<close> is the piece
  read so far.\<close>

fun split_from :: "string \<Rightarrow> string \<Rightarrow> string list" where
  "split_from segment [] = [segment]"
| "split_from segment (c # cs) =
     (if c = CHR ''/'' then segment # split_from [] cs else split_from (segment @ [c]) cs)"

definition split_path :: "string \<Rightarrow> string list" where
  "split_path path = split_from [] path"

text \<open>One segment in the loop of \<open>normalizeString\<close>; \<open>res\<close> holds the segments kept so far,
  \<open>allowAboveRoot\<close> is true for a relative path.\<close>

definition normalize_segment :: "bool \<Rightarrow> string list \<Rightarrow> string \<Rightarrow> string list" where
  "normalize_segment allowAboveRoot res segment =
     (if segment = [] \<or> segment = ''.'' then res
      else if segment = ''..'' then
        (if res \<noteq> [] \<and> last res \<noteq> ''..'' then butlast res
         else if allowAboveRoot then res @ [''..'']
         else res)
      else res @ [segment])"

definition normalizeString :: "string \<Rightarrow> bool \<Rightarrow> string list" where
  "normalizeString path allowAboveRoot =
     foldl (normalize_segment allowAboveRoot) [] (split_path path)"

fun join_segments :: "string list \<Rightarrow> string" where
  "join_segments [] = []"
| "join_segments [segment] = segment"
| "join_segments (segment # rest) = segment @ ''/'' @ join_segments rest"

definition normalize :: "string \<Rightarrow> string" where
  "normalize path =
     (if path = [] then ''.''
      else
        let isAbsolute = (hd path = CHR ''/'');
            trailingSeparator = (last path = CHR ''/'');
            res = join_segments (normalizeString path (\<not> isAbsolute))
        in if res = [] then (if isAbsolute then ''/'' else if trailingSeparator then ''./'' else ''.'')
           else (if isAbsolute then ''/'' else []) @ res @ (if trailingSeparator then ''/'' else []))"

definition path_join :: "string \<Rightarrow> string \<Rightarrow> string" where
  "path_join a b =
     (let joined = (if a = [] then b else if b = [] then a else a @ ''/'' @ b)
      in if joined = [] then ''.'' else normalize joined)"

text \<open>Decimal rendering of a number in a template string.\<close>

fun string_of_nat :: "nat \<Rightarrow> string" where
  "string_of_nat n =
     (if n < 10 then [char_of (48 + n)]
      else string_of_nat (n div 10) @ [char_of (48 + n mod 10)])"

declare string_of_nat.simps [simp del]

record task_checkpoint =
  cp_taskId :: string
  cp_agentId :: string
  cp_status :: string
  cp_progress :: js_number
  cp_context :: js_any
  cp_intermediateResults :: js_any
  cp_dependencies :: "string list"
  cp_startTime :: string
  cp_lastUpdate :: string
  cp_modelState :: js_any
  cp_memorySnapshot :: js_any

record resource_metrics =
  totalRAM :: int
  usedRAM :: int
  freeRAM :: int
  ramUtilization :: rat
  totalVRAM :: int
  usedVRAM :: int
  freeVRAM :: int
  vramUtilization :: rat
  cpuUsage :: rat
  timestamp :: nat

text \<open>What one call reads from its environment: the time, the random number behind the
  suffix of a generated id (as the digits of its fraction in base 36), the memory and
  CPU figures of the operating system, and the \<open>process\<close> object.\<close>

record rm_env =
  env_now :: nat
  env_random :: "nat list"
  env_totalmem :: int
  env_freemem :: int
  env_cpu :: rat
  env_process :: json

text \<open>A registered callback \<open>() => Promise<void>\<close> acts on the state of the consumer
  that registered it, and its promise resolves (\<open>False\<close>) or rejects (\<open>True\<close>).\<close>

type_synonym 'w callback = "'w \<Rightarrow> 'w \<times> bool"

text \<open>The \<open>ResourceManager\<close> object, and with it the two parts of the environment it
  acts on: the file system and the state of the consumers (\<open>world\<close>). A threshold holds
  a number, or \<open>undefined\<close> or \<open>null\<close> once \<open>setThresholds\<close> has copied one there.\<close>

record 'w resource_manager =
  checkpointDirectory :: string
  emergencyDumpDirectory :: string
  ramCritical :: "rat js"
  ramWarning :: "rat js"
  vramCritical :: "rat js"
  vramWarning :: "rat js"
  isMonitoring :: bool
  emergencyCallbacks :: "'w callback list"
  pauseCallbacks :: "'w callback list"
  resumeCallbacks :: "'w callback list"
  fs :: filesystem
  world :: 'w

definition new_ResourceManager :: "string \<Rightarrow> filesystem \<Rightarrow> 'w \<Rightarrow> 'w resource_manager" where
  "new_ResourceManager workingDirectory fsys w =
     \<lparr>checkpointDirectory = path_join workingDirectory ''.checkpoints'',
      emergencyDumpDirectory = path_join workingDirectory ''.emergency-dumps'',
      ramCritical = Val 95, ramWarning = Val 85, vramCritical = Val 95, vramWarning = Val 90,
      isMonitoring = False,
      emergencyCallbacks = [], pauseCallbacks = [], resumeCallbacks = [],
      fs = fsys, world = w\<rparr>"

definition estimateVRAMUsage :: int where
  "estimateVRAMUsage = 24 * 1024 * 1024 * 1024"

text \<open>\<open>os.totalmem()\<close> is positive on every system; for \<open>env_totalmem = 0\<close> the quotient
  below is 0 where JavaScript has \<open>NaN\<close> or an infinity.\<close>

definition getResourceMetrics :: "rm_env \<Rightarrow> resource_metrics" where
  "getResourceMetrics env =
     (let total = env_totalmem env;
          free = env_freemem env;
          used = total - free;
          estimatedTotalVRAM = 28 * 1024 * 1024 * 1024
      in \<lparr>totalRAM = total, usedRAM = used, freeRAM = free,
           ramUtilization = (of_int used / of_int total) * 100,
           totalVRAM = estimatedTotalVRAM, usedVRAM = estimateVRAMUsage,
           freeVRAM = estimatedTotalVRAM - estimateVRAMUsage,
           vramUtilization = (of_int estimateVRAMUsage / of_int estimatedTotalVRAM) * 100,
           cpuUsage = min (env_cpu env) 100,
           timestamp = env_now env\<rparr>)"

definition metrics_json :: "resource_metrics \<Rightarrow> json" where
  "metrics_json m =
     JObj [(''totalRAM'', JNum (of_int (totalRAM m))), (''usedRAM'', JNum (of_int (usedRAM m))),
           (''freeRAM'', JNum (of_int (freeRAM m))), (''ramUtilization'', JNum (ramUtilization m)),
           (''totalVRAM'', JNum (of_int (totalVRAM m))), (''usedVRAM'', JNum (of_int (usedVRAM m))),
           (''freeVRAM'', JNum (of_int (freeVRAM m))), (''vramUtilization'', JNum (vramUtilization m)),
           (''cpuUsage'', JNum (cpuUsage m)), (''timestamp'', JStr (string_of_nat (timestamp m)))]"

subsection \<open>Checkpoints\<close>

text \<open>
  \<^verbatim>\<open>
  const checkpointId = `checkpoint_${taskCheckpoint.taskId}_${Date.now()}`;
  const checkpointPath = path.join(this.checkpointDirectory, `${checkpointId}.json`);
  const checkpointData = { ...taskCheckpoint, checkpointId, savedAt: ..., version: '1.0' };
  await fs.writeJson(checkpointPath, checkpointData, { spaces: 2 });
  const quickRecoveryPath = path.join(this.checkpointDirectory, `quick_${taskCheckpoint.taskId}.json`);
  await fs.writeJson(quickRecoveryPath, { taskId, checkpointId, checkpointPath, lastUpdate });
  return checkpointId;
  \<close>
\<close>

definition checkpointData_of :: "task_checkpoint \<Rightarrow> string \<Rightarrow> nat \<Rightarrow> (string \<times> js_any) list" where
  "checkpointData_of c checkpointId now =
     [(''taskId'', Plain (JStr (cp_taskId c))),
      (''agentId'', Plain (JStr (cp_agentId c))),
      (''status'', Plain (JStr (cp_status c))),
      (''progress'', Plain (json_of_number (cp_progress c))),
      (''context'', cp_context c),
      (''intermediateResults'', cp_intermediateResults c),
      (''dependencies'', Plain (JArr (map JStr (cp_dependencies c)))),
      (''startTime'', Plain (JStr (cp_startTime c))),
      (''lastUpdate'', Plain (JStr (cp_lastUpdate c))),
      (''modelState'', cp_modelState c),
      (''memorySnapshot'', cp_memorySnapshot c),
      (''checkpointId'', Plain (JStr checkpointId)),
      (''savedAt'', Plain (JStr (string_of_nat now))),
      (''version'', Plain (JStr ''1.0''))]"

definition saveTaskCheckpoint ::
  "rm_env \<Rightarrow> task_checkpoint \<Rightarrow> 'w resource_manager \<Rightarrow> 'w resource_manager \<times> (io_error + string)" where
  "saveTaskCheckpoint env taskCheckpoint s =
     (let checkpointId = ''checkpoint_'' @ cp_taskId taskCheckpoint @ ''_'' @ string_of_nat (env_now env);
          checkpointPath = path_join (checkpointDirectory s) (checkpointId @ ''.json'')
      in case writeJson checkpointPath (checkpointData_of taskCheckpoint checkpointId (env_now env))
                (env_now env) (fs s) of
           Inl e \<Rightarrow> (s, Inl e)
         | Inr fs1 \<Rightarrow>
             let quickRecoveryPath =
                   path_join (checkpointDirectory s) (''quick_'' @ cp_taskId taskCheckpoint @ ''.json'')
             in case writeJson quickRecoveryPath
                       [(''taskId'', Plain (JStr (cp_taskId taskCheckpoint))),
                        (''checkpointId'', Plain (JStr checkpointId)),
                        (''checkpointPath'', Plain (JStr checkpointPath)),
                        (''lastUpdate'', Plain (JStr (string_of_nat (env_now env))))]
                       (env_now env) fs1 of
                  Inl e \<Rightarrow> (s\<lparr>fs := fs1\<rparr>, Inl e)
                | Inr fs2 \<Rightarrow> (s\<lparr>fs := fs2\<rparr>, Inr checkpointId))"

text \<open>
  \<^verbatim>\<open>
  try {
    const quickRecoveryPath = path.join(this.checkpointDirectory, `quick_${taskId}.json`);
    if (await fs.pathExists(quickRecoveryPath)) {
      const quickRecovery = await fs.readJson(quickRecoveryPath);
      const checkpointData = await fs.readJson(quickRecovery.checkpointPath);
      return checkpointData;
    }
    return null;
  } catch (error) { return null; }
  \<close>
  \<open>readJson\<close> of a path that is not a string throws.
\<close>

definition loadTaskCheckpoint :: "string \<Rightarrow> 'w resource_manager \<Rightarrow> json option" where
  "loadTaskCheckpoint taskId s =
     (let quickRecoveryPath = path_join (checkpointDirectory s) (''quick_'' @ taskId @ ''.json'')
      in if pathExists quickRecoveryPath (fs s) then
           (case readJson quickRecoveryPath (fs s) of
              Inl e \<Rightarrow> None
            | Inr quickRecovery \<Rightarrow>
                (case jfield quickRecovery ''checkpointPath'' of
                   Some (JStr checkpointPath) \<Rightarrow>
                     (case readJson checkpointPath (fs s) of
                        Inl e \<Rightarrow> None
                      | Inr checkpointData \<Rightarrow> Some checkpointData)
                 | other \<Rightarrow> None))
         else None)"

subsection \<open>Emergency dumps\<close>

definition emergencyData ::
  "rm_env \<Rightarrow> string \<Rightarrow> string \<Rightarrow> js_any \<Rightarrow> (string \<times> js_any) list" where
  "emergencyData env dumpId reason additionalData =
     [(''dumpId'', Plain (JStr dumpId)),
      (''reason'', Plain (JStr reason)),
      (''systemState'', Plain (JObj
          [(''activeAgents'', JArr []), (''runningTasks'', JArr []),
           (''resourceMetrics'', metrics_json (getResourceMetrics env)),
           (''modelLoadStates'', JObj []), (''collaborations'', JArr []),
           (''timestamp'', JStr (string_of_nat (env_now env)))])),
      (''additionalData'', additionalData),
      (''processInfo'', Plain (env_process env)),
      (''environment'', Plain (env_process env)),
      (''timestamp'', Plain (JStr (string_of_nat (env_now env))))]"

text \<open>\<open>Math.random().toString(36).substr(2, 9)\<close>: at most nine digits of base 36.\<close>

definition base36_digit :: "nat \<Rightarrow> char" where
  "base36_digit d = (if d mod 36 < 10 then char_of (48 + d mod 36) else char_of (87 + d mod 36))"

definition random_suffix :: "nat list \<Rightarrow> string" where
  "random_suffix digits = map base36_digit (take 9 digits)"

text \<open>The \<open>try\<close> block of \<open>emergencyDump\<close>: write the dump, then copy it to the
  \<open>latest_emergency_dump.json\<close> pointer. The first write may have happened when the copy fails.\<close>

definition emergencyDump_try ::
  "rm_env \<Rightarrow> string \<Rightarrow> string \<Rightarrow> js_any \<Rightarrow> 'w resource_manager \<Rightarrow> filesystem \<times> io_error option" where
  "emergencyDump_try env dumpId reason additionalData s =
     (let dumpPath = path_join (emergencyDumpDirectory s) (dumpId @ ''.json'')
      in case writeJson dumpPath (emergencyData env dumpId reason additionalData) (env_now env)
                (fs s) of
           Inl e \<Rightarrow> (fs s, Some e)
         | Inr fs1 \<Rightarrow>
             (case copy dumpPath (path_join (emergencyDumpDirectory s) ''latest_emergency_dump.json'')
                     (env_now env) fs1 of
                Inl e \<Rightarrow> (fs1, Some e)
              | Inr fs2 \<Rightarrow> (fs2, None)))"

text \<open>
  \<^verbatim>\<open>
  } catch (error) {
    console.error('Failed to create emergency dump:', error);
    // Try to at least save basic info to a text file
    const basicDumpPath = path.join(this.emergencyDumpDirectory, `basic_${dumpId}.txt`);
    const basicInfo = `Emergency Dump: ${dumpId}\nReason: ${reason}\n...`;
    await fs.writeFile(basicDumpPath, basicInfo);
    return dumpId;
  }
  \<close>
  The \<open>await fs.writeFile\<close> of the \<open>catch\<close> block stands in no \<open>try\<close> of its own.
  The text of the caught error, which \<open>basicInfo\<close> ends with, is left out of the model.
\<close>

definition emergencyDump ::
  "rm_env \<Rightarrow> string \<Rightarrow> js_any \<Rightarrow> 'w resource_manager \<Rightarrow> 'w resource_manager \<times> (io_error + string)" where
  "emergencyDump env reason additionalData s =
     (let dumpId = ''emergency_'' @ string_of_nat (env_now env) @ ''_'' @ random_suffix (env_random env)
      in case emergencyDump_try env dumpId reason additionalData s of
           (fs1, None) \<Rightarrow> (s\<lparr>fs := fs1\<rparr>, Inr dumpId)
         | (fs1, Some error) \<Rightarrow>
             let basicDumpPath = path_join (emergencyDumpDirectory s) (''basic_'' @ dumpId @ ''.txt'');
                 basicInfo = ''Emergency Dump: '' @ dumpId @ ''\<newline>Reason: '' @ reason @
                             ''\<newline>Timestamp: '' @ string_of_nat (env_now env) @ ''\<newline>''
             in (case writeFile basicDumpPath basicInfo (env_now env) fs1 of
                   Inl e \<Rightarrow> (s\<lparr>fs := fs1\<rparr>, Inl e)
                 | Inr fs2 \<Rightarrow> (s\<lparr>fs := fs2\<rparr>, Inr dumpId)))"

subsection \<open>Resource pressure and callbacks\<close>

text \<open>\<open>for (const callback of callbacks) { try { await callback(); } catch (error) { ... } }\<close>:
  every callback runs, a rejection is logged and dropped.\<close>

fun run_callbacks :: "'w callback list \<Rightarrow> 'w \<Rightarrow> 'w" where
  "run_callbacks [] w = w"
| "run_callbacks (callback # rest) w = run_callbacks rest (fst (callback w))"

definition handleCriticalRAMUsage ::
  "rm_env \<Rightarrow> resource_metrics \<Rightarrow> 'w resource_manager \<Rightarrow> 'w resource_manager \<times> io_error option" where
  "handleCriticalRAMUsage env metrics s =
     (case emergencyDump env ''critical-ram-usage''
             (Plain (JObj [(''metrics'', metrics_json metrics)])) s of
        (s1, Inl e) \<Rightarrow> (s1, Some e)
      | (s1, Inr dumpId) \<Rightarrow>
          (s1\<lparr>world := run_callbacks (emergencyCallbacks s1) (world s1)\<rparr>, None))"

definition handleWarningRAMUsage :: "resource_metrics \<Rightarrow> 'w resource_manager \<Rightarrow> 'w resource_manager" where
  "handleWarningRAMUsage metrics s = s\<lparr>world := run_callbacks (pauseCallbacks s) (world s)\<rparr>"

text \<open>The two VRAM handlers only write to the console.\<close>

definition handleCriticalVRAMUsage :: "resource_metrics \<Rightarrow> 'w resource_manager \<Rightarrow> 'w resource_manager" where
  "handleCriticalVRAMUsage metrics s = s"

definition handleWarningVRAMUsage :: "resource_metrics \<Rightarrow> 'w resource_manager \<Rightarrow> 'w resource_manager" where
  "handleWarningVRAMUsage metrics s = s"

text \<open>\<open>x >= threshold\<close>: \<open>undefined\<close> converts to \<open>NaN\<close>, with which every comparison is
  false, and \<open>null\<close> converts to 0.\<close>

fun reaches :: "rat \<Rightarrow> rat js \<Rightarrow> bool" where
  "reaches x (Val threshold) = (x \<ge> threshold)"
| "reaches x JsUndefined = False"
| "reaches x JsNull = (x \<ge> 0)"

definition checkResourcePressure ::
  "rm_env \<Rightarrow> 'w resource_manager \<Rightarrow> 'w resource_manager \<times> io_error option" where
  "checkResourcePressure env s =
     (let metrics = getResourceMetrics env;
          r = (if reaches (ramUtilization metrics) (ramCritical s)
               then handleCriticalRAMUsage env metrics s
               else if reaches (ramUtilization metrics) (ramWarning s)
               then (handleWarningRAMUsage metrics s, None)
               else (s, None))
      in case r of
           (s1, Some e) \<Rightarrow> (s1, Some e)
         | (s1, None) \<Rightarrow>
             if reaches (vramUtilization metrics) (vramCritical s1)
             then (handleCriticalVRAMUsage metrics s1, None)
             else if reaches (vramUtilization metrics) (vramWarning s1)
             then (handleWarningVRAMUsage metrics s1, None)
             else (s1, None))"

definition onEmergency :: "'w callback \<Rightarrow> 'w resource_manager \<Rightarrow> 'w resource_manager" where
  "onEmergency callback s = s\<lparr>emergencyCallbacks := emergencyCallbacks s @ [callback]\<rparr>"

definition onPause :: "'w callback \<Rightarrow> 'w resource_manager \<Rightarrow> 'w resource_manager" where
  "onPause callback s = s\<lparr>pauseCallbacks := pauseCallbacks s @ [callback]\<rparr>"

definition onResume :: "'w callback \<Rightarrow> 'w resource_manager \<Rightarrow> 'w resource_manager" where
  "onResume callback s = s\<lparr>resumeCallbacks := resumeCallbacks s @ [callback]\<rparr>"

record thresholds_partial =
  tp_ramCritical :: "rat property"
  tp_ramWarning :: "rat property"
  tp_vramCritical :: "rat property"
  tp_vramWarning :: "rat property"

definition setThresholds :: "thresholds_partial \<Rightarrow> 'w resource_manager \<Rightarrow> 'w resource_manager" where
  "setThresholds thresholds s =
     s\<lparr>ramCritical := spread (ramCritical s) (tp_ramCritical thresholds),
       ramWarning := spread (ramWarning s) (tp_ramWarning thresholds),
       vramCritical := spread (vramCritical s) (tp_vramCritical thresholds),
       vramWarning := spread (vramWarning s) (tp_vramWarning thresholds)\<rparr>"

text \<open>
  \<^verbatim>\<open>
  try {
    const files = await fs.readdir(this.checkpointDirectory);
    const now = Date.now();
    let cleaned = 0;
    for (const file of files) {
      const filePath = path.join(this.checkpointDirectory, file);
      const stats = await fs.stat(filePath);
      if (now - stats.mtime.getTime() > maxAge) { await fs.remove(filePath); cleaned++; }
    }
    return cleaned;
  } catch (error) { return 0; }
  \<close>
  The listing that \<open>readdir\<close> returns, the names in the directory in the order of the
  operating system, is an input (\<open>None\<close> when \<open>readdir\<close> fails). An exception ends the loop
  and leaves the entries removed before it removed.
\<close>

fun cleanup_loop :: "string \<Rightarrow> nat \<Rightarrow> int \<Rightarrow> string list \<Rightarrow> nat \<Rightarrow> filesystem \<Rightarrow> filesystem \<times> nat" where
  "cleanup_loop dir now maxAge [] cleaned fsys = (fsys, cleaned)"
| "cleanup_loop dir now maxAge (file # rest) cleaned fsys =
     (let filePath = path_join dir file
      in case stat_mtime filePath fsys of
           Inl e \<Rightarrow> (fsys, 0)
         | Inr modified \<Rightarrow>
             if int now - int modified > maxAge then
               (case remove filePath fsys of
                  Inl e \<Rightarrow> (fsys, 0)
                | Inr fs1 \<Rightarrow> cleanup_loop dir now maxAge rest (Suc cleaned) fs1)
             else cleanup_loop dir now maxAge rest cleaned fsys)"

definition cleanupOldCheckpoints ::
  "rm_env \<Rightarrow> int \<Rightarrow> string list option \<Rightarrow> 'w resource_manager \<Rightarrow> 'w resource_manager \<times> nat" where
  "cleanupOldCheckpoints env maxAge listing s =
     (case listing of
        None \<Rightarrow> (s, 0)
      | Some names \<Rightarrow>
          (case cleanup_loop (checkpointDirectory s) (env_now env) maxAge names 0 (fs s) of
             (fs1, cleaned) \<Rightarrow> (s\<lparr>fs := fs1\<rparr>, cleaned)))"

definition startMonitoring :: "'w resource_manager \<Rightarrow> 'w resource_manager" where
  "startMonitoring s = (if isMonitoring s then s else s\<lparr>isMonitoring := True\<rparr>)"

definition stopMonitoring :: "'w resource_manager \<Rightarrow> 'w resource_manager" where
  "stopMonitoring s = s\<lparr>isMonitoring := False\<rparr>"

text \<open>The operations on a resource manager: the public methods that change it or the
  file system, the sample that the monitoring timer takes while monitoring is on, and
  the pressure handlers. \<open>getResourceMetrics\<close>, \<open>getThresholds\<close>, \<open>loadTaskCheckpoint\<close>,
  \<open>recoverFromDump\<close> and the two listings only read.\<close>

datatype 'w rm_op =
    OnEmergency "'w callback"
  | OnPause "'w callback"
  | OnResume "'w callback"
  | SetThresholds thresholds_partial
  | StartMonitoring
  | StopMonitoring
  | MonitoringSample rm_env
  | CheckResourcePressure rm_env
  | HandleCriticalRAMUsage rm_env
  | HandleWarningRAMUsage rm_env
  | HandleCriticalVRAMUsage rm_env
  | HandleWarningVRAMUsage rm_env
  | SaveTaskCheckpoint rm_env task_checkpoint
  | EmergencyDump rm_env string js_any
  | CleanupOldCheckpoints rm_env int "string list option"

fun rm_step :: "'w rm_op \<Rightarrow> 'w resource_manager \<Rightarrow> 'w resource_manager" where
  "rm_step (OnEmergency callback) s = onEmergency callback s"
| "rm_step (OnPause callback) s = onPause callback s"
| "rm_step (OnResume callback) s = onResume callback s"
| "rm_step (SetThresholds thresholds) s = setThresholds thresholds s"
| "rm_step StartMonitoring s = startMonitoring s"
| "rm_step StopMonitoring s = stopMonitoring s"
| "rm_step (MonitoringSample env) s =
     (if isMonitoring s then fst (checkResourcePressure env s) else s)"
| "rm_step (CheckResourcePressure env) s = fst (checkResourcePressure env s)"
| "rm_step (HandleCriticalRAMUsage env) s = fst (handleCriticalRAMUsage env (getResourceMetrics env) s)"
| "rm_step (HandleWarningRAMUsage env) s = handleWarningRAMUsage (getResourceMetrics env) s"
| "rm_step (HandleCriticalVRAMUsage env) s = handleCriticalVRAMUsage (getResourceMetrics env) s"
| "rm_step (HandleWarningVRAMUsage env) s = handleWarningVRAMUsage (getResourceMetrics env) s"
| "rm_step (SaveTaskCheckpoint env c) s = fst (saveTaskCheckpoint env c s)"
| "rm_step (EmergencyDump env reason additionalData) s = fst (emergencyDump env reason additionalData s)"
| "rm_step (CleanupOldCheckpoints env maxAge listing) s = fst (cleanupOldCheckpoints env maxAge listing s)"

fun rm_run :: "'w rm_op list \<Rightarrow> 'w resource_manager \<Rightarrow> 'w resource_manager" where
  "rm_run [] s = s"
| "rm_run (x # xs) s = rm_run xs (rm_step x s)"

fun is_OnResume :: "'w rm_op \<Rightarrow> bool" where
  "is_OnResume (OnResume callback) = True"
| "is_OnResume other = False"

section \<open>Specification-side definitions\<close>

text \<open>
  The score as the specification words it (C7):
  \<open>10 \<times> |capabilities \<inter> required| + 15 \<times> |specializations \<inter> required|
  + 5 \<times> successRate\<close> (if any task is completed) \<open>+ 5 \<times> (agent.priority = task.priority)
  - 2 \<times> queueLength\<close>, the two cardinalities being those of intersections of sets.
\<close>

definition score_spec :: "task \<Rightarrow> agent_config \<Rightarrow> agent_state \<Rightarrow> rat" where
  "score_spec task config state =
     10 * of_nat (card (set (cfg_capabilities config) \<inter> set (getTaskRequiredCapabilities task)))
     + 15 * of_nat (card (set (st_specializations state) \<inter>
                           set (getTaskRequiredSpecializations task)))
     + (if st_tasksCompleted state > 0
        then 5 * (of_nat (st_tasksSuccessful state) / of_nat (st_tasksCompleted state)) else 0)
     + (if cfg_priority config = t_priority task then 5 else 0)
     - 2 * of_nat (length (st_taskQueue state))"

text \<open>
  The same score with every entry of the agent's two lists counted: a capability or a
  specialization that the list repeats counts as often as it is listed.
\<close>

definition score_counted :: "task \<Rightarrow> agent_config \<Rightarrow> agent_state \<Rightarrow> rat" where
  "score_counted task config state =
     10 * of_nat (\<Sum>cap \<leftarrow> getTaskRequiredCapabilities task.
                     count_list (cfg_capabilities config) cap)
     + 15 * of_nat (\<Sum>spec \<leftarrow> getTaskRequiredSpecializations task.
                       count_list (st_specializations state) spec)
     + (if st_tasksCompleted state > 0
        then 5 * (of_nat (st_tasksSuccessful state) / of_nat (st_tasksCompleted state)) else 0)
     + (if cfg_priority config = t_priority task then 5 else 0)
     - 2 * of_nat (length (st_taskQueue state))"

text \<open>The dependencies of a task: the ids in its list, none when the property holds no
  list.\<close>

definition dependency_ids :: "task \<Rightarrow> string list" where
  "dependency_ids task =
     (case t_dependencies task of
        Val dependencies \<Rightarrow> dependencies
      | JsUndefined \<Rightarrow> []
      | JsNull \<Rightarrow> [])"

text \<open>The position of a status on the path
  \<open>pending \<rightarrow> assigned \<rightarrow> {in_progress, completed, failed, cancelled}\<close>; a status that
  is none of the six literals (\<open>createTask\<close> can store \<open>undefined\<close> or \<open>null\<close>) is neither
  pending nor assigned and stands with the last group.\<close>

fun status_rank :: "task_status js \<Rightarrow> nat" where
  "status_rank (Val Pending) = 0"
| "status_rank (Val Assigned) = 1"
| "status_rank (Val In_progress) = 2"
| "status_rank (Val Completed) = 2"
| "status_rank (Val Failed) = 2"
| "status_rank (Val Cancelled) = 2"
| "status_rank JsUndefined = 2"
| "status_rank JsNull = 2"

text \<open>Between two states no task is lost and no task has moved back on that path.\<close>

definition status_forward :: "orch \<Rightarrow> orch \<Rightarrow> bool" where
  "status_forward s s' \<longleftrightarrow>
     (\<forall>taskId task. map_of (tasks s) taskId = Some task \<longrightarrow>
        (\<exists>task'. map_of (tasks s') taskId = Some task' \<and>
           status_rank (t_status task) \<le> status_rank (t_status task')))"

text \<open>The agent registry is well formed: the keys of \<open>agentStates\<close> are unique (it is a
  \<open>Map\<close>), and no agent has more successes than completed tasks.\<close>

definition registry_ok :: "orch \<Rightarrow> bool" where
  "registry_ok s \<longleftrightarrow>
     distinct (map fst (agentStates s)) \<and>
     (\<forall>aid st. map_of (agentStates s) aid = Some st \<longrightarrow>
        st_tasksSuccessful st \<le> st_tasksCompleted st)"

text \<open>The queues are well formed: no queue repeats a task, no task is in two queues, and
  every queued id is the id of a task that is no longer pending.\<close>

definition queues_ok :: "orch \<Rightarrow> bool" where
  "queues_ok s \<longleftrightarrow>
     (\<forall>aid st. map_of (agentStates s) aid = Some st \<longrightarrow>
        distinct (st_taskQueue st) \<and>
        (\<forall>taskId \<in> set (st_taskQueue st).
           \<exists>task. map_of (tasks s) taskId = Some task \<and> t_status task \<noteq> Val Pending)) \<and>
     (\<forall>a b sa sb. a \<noteq> b \<and> map_of (agentStates s) a = Some sa \<and>
        map_of (agentStates s) b = Some sb \<longrightarrow>
        set (st_taskQueue sa) \<inter> set (st_taskQueue sb) = {})"




text \<open>A resource manager with its list of resume callbacks emptied.\<close>

definition without_resume :: "'w resource_manager \<Rightarrow> 'w resource_manager" where
  "without_resume s = s\<lparr>resumeCallbacks := []\<rparr>"

section \<open>Example inputs\<close>

definition example_agent :: "string \<Rightarrow> string list \<Rightarrow> agent_config" where
  "example_agent aid caps =
     \<lparr>cfg_id = aid, cfg_name = aid, cfg_role = ''worker'', cfg_capabilities = caps,
      cfg_systemPrompt = ''You are a worker.'', cfg_parentAgentId = None, cfg_priority = Val Medium,
      cfg_timeout = None\<rparr>"

text \<open>A strategy that takes a second and succeeds, and one that takes a second and throws.\<close>

definition example_strategy :: strategy where
  "example_strategy task agent = (1000, Inr ''done'')"

definition failing_strategy :: strategy where
  "failing_strategy task agent = (1000, Inl (JsError ''boom''))"

definition example_message :: "message_type \<Rightarrow> string option \<Rightarrow> message_input" where
  "example_message ty taskId =
     \<lparr>mi_fromAgentId = ''a1'', mi_toAgentId = ''a1'', mi_type = ty,
      mi_content = \<lparr>c_taskId = taskId, c_result = Some ''reported'', c_error = Some ''broken'',
                    c_requestType = None\<rparr>,
      mi_priority = Medium\<rparr>"

text \<open>Two agents and a coding task.\<close>

definition two_agents :: orch where
  "two_agents = run example_strategy
     [CreateAgent (example_agent ''a1'' [''research'']),
      CreateAgent (example_agent ''a2'' [''coding'']),
      CreateTask ''t1'' (empty_config\<lparr>pc_type := Present (Val Coding)\<rparr>)] init_orch"


text \<open>The state of an idle agent \<open>a1\<close> whose configuration is gone, as \<open>executeTask\<close>
  leaves it when \<open>removeAgent\<close> has run while the strategy was awaited: the statements
  after the \<open>await\<close> put the state they hold back into \<open>agentStates\<close>.\<close>

definition state_without_configuration :: orch where
  "state_without_configuration =
     two_agents\<lparr>agents := AList.delete ''a1'' (agents two_agents)\<rparr>"

text \<open>One agent and no task.\<close>

definition only_agent :: orch where
  "only_agent = run example_strategy [CreateAgent (example_agent ''a1'' [''coding''])] init_orch"

text \<open>One agent, a coding task \<open>t1\<close> and a task \<open>t2\<close> that depends on it.\<close>

definition one_agent :: orch where
  "one_agent = run example_strategy
     [CreateAgent (example_agent ''a1'' [''coding'']),
      CreateTask ''t1'' (empty_config\<lparr>pc_type := Present (Val Coding)\<rparr>),
      CreateTask ''t2'' (empty_config\<lparr>pc_dependencies := Present (Val [''t1''])\<rparr>)] init_orch"

text \<open>No agent, and a task \<open>t2\<close> whose dependency \<open>t1\<close> does not exist.\<close>

definition no_agent :: orch where
  "no_agent = run example_strategy
     [CreateTask ''t2'' (empty_config\<lparr>pc_dependencies := Present (Val [''t1''])\<rparr>)] init_orch"

text \<open>\<open>t1\<close> assigned to \<open>a1\<close>.\<close>

definition assigned_t1 :: orch where
  "assigned_t1 = run example_strategy [AssignTask ''t1'' (Some ''a1'')] one_agent"

definition example_env :: rm_env where
  "example_env = \<lparr>env_now = 1000, env_random = [10, 11, 12], env_totalmem = 1000, env_freemem = 40,
     env_cpu = 5, env_process = JObj [(''pid'', JNum 1)]\<rparr>"

definition empty_fs :: filesystem where
  "empty_fs = \<lparr>files = (\<lambda>path. None), mtime = (\<lambda>path. 0), unwritable = (\<lambda>path. False)\<rparr>"

text \<open>A file system on which every write fails.\<close>

definition readonly_fs :: filesystem where
  "readonly_fs = \<lparr>files = (\<lambda>path. None), mtime = (\<lambda>path. 0), unwritable = (\<lambda>path. True)\<rparr>"

definition example_checkpoint :: task_checkpoint where
  "example_checkpoint =
     \<lparr>cp_taskId = ''t1'', cp_agentId = ''a1'', cp_status = ''in_progress'', cp_progress = Finite (1 / 2),
      cp_context = Plain JNull, cp_intermediateResults = Plain (JArr []), cp_dependencies = [],
      cp_startTime = ''0'', cp_lastUpdate = ''0'', cp_modelState = Undefined,
      cp_memorySnapshot = Undefined\<rparr>"

text \<open>A consumer whose state is a log of what its callbacks did.\<close>

definition log_callback :: "string \<Rightarrow> string list callback" where
  "log_callback name w = (w @ [name], False)"

section \<open>Properties\<close>

subsection \<open>Lookups in an updated map\<close>

lemma map_of_update_same: "map_of (AList.update k v al) k = Some v"
  by (simp add: AList.update_conv')

lemma map_of_update_other: "k' \<noteq> k \<Longrightarrow> map_of (AList.update k v al) k' = map_of al k'"
  by (simp add: AList.update_conv')

subsection \<open>createTask\<close>

lemma spread_cases:
  "(p = Absent \<longrightarrow> spread d p = d) \<and> (\<forall>v. p = Present v \<longrightarrow> spread d p = v)"
  by (cases p) simp_all




text \<open>The defaults that \<open>createTask\<close> computes with \<open>||\<close> do not survive the spread either:
  a property that is present with the value \<open>undefined\<close> or \<open>null\<close> is stored as that.\<close>

lemma createTask_undefined_replaces_default:
  "t_priority (the (map_of (tasks (fst (createTask ''task_1''
      (empty_config\<lparr>pc_priority := Present JsUndefined, pc_dependencies := Present JsNull\<rparr>)
      init_orch))) ''task_1''))
     = JsUndefined \<and>
   t_dependencies (the (map_of (tasks (fst (createTask ''task_1''
      (empty_config\<lparr>pc_priority := Present JsUndefined, pc_dependencies := Present JsNull\<rparr>)
      init_orch))) ''task_1''))
     = JsNull"
  by (simp add: createTask_def Let_def spread_task_def task_defaults_def empty_config_def init_orch_def)

subsection \<open>findBestAgent\<close>

lemma sum_indicator:
  "distinct req \<Longrightarrow> (\<Sum>r\<leftarrow>req. if c = r then 1 else 0) = (if c \<in> set req then 1 else (0::nat))"
  by (induction req) auto

lemma count_required:
  assumes "distinct req"
  shows "(\<Sum>r\<leftarrow>req. count_list xs r) = length (filter (\<lambda>x. x \<in> set req) xs)"
proof (induction xs)
  case Nil
  then show ?case by simp
next
  case (Cons x xs)
  have "(\<Sum>r\<leftarrow>req. count_list (x # xs) r)
          = (\<Sum>r\<leftarrow>req. (if x = r then 1 else 0) + count_list xs r)"
    by (rule arg_cong [where f = sum_list]) (rule map_cong, simp_all)
  also have "\<dots> = (\<Sum>r\<leftarrow>req. if x = r then 1 else 0) + (\<Sum>r\<leftarrow>req. count_list xs r)"
    by (simp add: sum_list_addf)
  finally show ?case using Cons sum_indicator [OF assms, of x] by simp
qed

lemma distinct_requiredCapabilities: "distinct (getTaskRequiredCapabilities task)"
proof (cases "t_type task")
  case (Val ty)
  then show ?thesis by (cases ty) (simp_all add: getTaskRequiredCapabilities_def)
qed (simp_all add: getTaskRequiredCapabilities_def)

lemma distinct_requiredSpecializations: "distinct (getTaskRequiredSpecializations task)"
proof (cases "t_type task")
  case (Val ty)
  then show ?thesis by (cases ty) (simp_all add: getTaskRequiredSpecializations_def)
qed (simp_all add: getTaskRequiredSpecializations_def)


text \<open>It is the score of the specification when neither list repeats an entry.\<close>

lemma card_inter_filter:
  "distinct xs \<Longrightarrow> card (set xs \<inter> set req) = length (filter (\<lambda>x. x \<in> set req) xs)"
proof -
  assume d: "distinct xs"
  have "card (set xs \<inter> set req) = card (set (filter (\<lambda>x. x \<in> set req) xs))"
    by (rule arg_cong [where f = card]) auto
  also have "\<dots> = length (filter (\<lambda>x. x \<in> set req) xs)"
    using d by (intro distinct_card) simp
  finally show ?thesis .
qed

lemma score_counted_eq_spec:
  "distinct (cfg_capabilities config) \<Longrightarrow> distinct (st_specializations state) \<Longrightarrow>
   score_counted task config state = score_spec task config state"
  by (simp add: score_counted_def score_spec_def card_inter_filter
        count_required [OF distinct_requiredCapabilities]
        count_required [OF distinct_requiredSpecializations])

lemma hd_sort_key_in: "xs \<noteq> [] \<Longrightarrow> hd (sort_key f xs) \<in> set xs"
proof -
  assume "xs \<noteq> []"
  then have "sort_key f xs \<noteq> []" by (metis length_0_conv length_sort)
  then have "hd (sort_key f xs) \<in> set (sort_key f xs)" by (rule hd_in_set)
  then show ?thesis by simp
qed









text \<open>Nor does \<open>findBestAgent\<close> return in every state: where an idle agent has a state and
  no configuration, it raises a \<open>TypeError\<close>.\<close>

lemma findBestAgent_without_configuration:
  "map_of (agents state_without_configuration) ''a1'' = None \<and>
   st_status (the (map_of (agentStates state_without_configuration) ''a1'')) = Idle \<and>
   findBestAgent (the (map_of (tasks state_without_configuration) ''t1''))
     state_without_configuration = Inl TypeError"
  by code_simp

subsection \<open>assignTask\<close>

lemma findBestAgent_Some_registered:
  assumes "findBestAgent task s = Inr (Some a)"
  shows "map_of (agentStates s) a \<noteq> None"
proof -
  let ?sc = "\<lambda>(aid, state). (aid, agentScore task (the (map_of (agents s) aid)) state)"
  let ?scored = "map ?sc (availableAgents s)"
  let ?best = "hd (sort_key (\<lambda>(aid, score :: rat). - score) ?scored)"
  from assms have ne: "availableAgents s \<noteq> []" and a: "a = fst ?best"
    by (auto simp add: findBestAgent_def Let_def split: if_splits)
  from ne have "?scored \<noteq> []" by simp
  then have "?best \<in> set ?scored" by (rule hd_sort_key_in)
  then have "fst ?best \<in> fst ` set (availableAgents s)" by force
  then have "a \<in> fst ` set (agentStates s)" using a by (auto simp add: availableAgents_def)
  then show ?thesis by (simp add: map_of_eq_None_iff)
qed


lemma findBestAgent_Inl: "findBestAgent task s = Inl e \<Longrightarrow> e = TypeError"
  by (simp add: findBestAgent_def Let_def split: if_splits)

lemma resolveAgent_Inr_iff:
  "(\<exists>aid. resolveAgent task agentId s = Inr aid) \<longleftrightarrow>
     (if truthy agentId then map_of (agentStates s) (the agentId) \<noteq> None
      else (\<exists>best. findBestAgent task s = Inr (Some best)))"
proof (cases "truthy agentId")
  case True
  then show ?thesis by (simp add: resolveAgent_def split: option.splits)
next
  case False
  show ?thesis
  proof (cases "findBestAgent task s")
    case (Inl e)
    then show ?thesis using False by (simp add: resolveAgent_def)
  next
    case (Inr r)
    show ?thesis
    proof (cases r)
      case None
      then show ?thesis using False Inr by (simp add: resolveAgent_def)
    next
      case (Some best)
      with Inr have "map_of (agentStates s) best \<noteq> None"
        by (intro findBestAgent_Some_registered [of task]) simp
      then show ?thesis using False Inr Some by (auto simp add: resolveAgent_def)
    qed
  qed
qed

lemma resolveAgent_no_dependency_error:
  "resolveAgent task agentId s \<noteq> Inl (UnmetDependencies deps)"
proof (cases "truthy agentId")
  case True
  then show ?thesis by (simp add: resolveAgent_def split: option.splits)
next
  case False
  show ?thesis
  proof (cases "findBestAgent task s")
    case (Inl e)
    then have "e = TypeError" by (rule findBestAgent_Inl)
    then show ?thesis using False Inl by (simp add: resolveAgent_def)
  next
    case (Inr r)
    then show ?thesis using False by (cases r) (simp_all add: resolveAgent_def split: option.splits)
  qed
qed

lemma unmet_iff:
  "unmet s depId \<longleftrightarrow>
     (\<forall>depTask. map_of (tasks s) depId = Some depTask \<longrightarrow> t_status depTask \<noteq> Val Completed)"
  by (simp add: unmet_def split: option.splits)

lemma unmet_fun:
  "unmet s = (\<lambda>depId. \<forall>depTask. map_of (tasks s) depId = Some depTask \<longrightarrow>
                        t_status depTask \<noteq> Val Completed)"
  by (rule ext) (rule unmet_iff)

lemma checkTaskDependencies_Inr:
  "checkTaskDependencies task s = Inr deps \<Longrightarrow>
   deps = filter (\<lambda>depId. \<forall>depTask. map_of (tasks s) depId = Some depTask \<longrightarrow>
                        t_status depTask \<noteq> Val Completed) (dependency_ids task)"
  by (cases "t_dependencies task")
     (auto simp add: checkTaskDependencies_def dependency_ids_def unmet_fun)

lemma checkTaskDependencies_Inl:
  "checkTaskDependencies task s = Inl e \<Longrightarrow> e = TypeError \<and> dependency_ids task = []"
  by (cases "t_dependencies task")
     (auto simp add: checkTaskDependencies_def dependency_ids_def)

lemma assignTask_pending:
  assumes "map_of (tasks s) taskId = Some task" and "t_status task = Val Pending"
  shows "assignTask taskId agentId s =
     (case resolveAgent task agentId s of
        Inl e \<Rightarrow> Inl e
      | Inr aid \<Rightarrow>
          (case checkTaskDependencies task s of
             Inl e \<Rightarrow> Inl e
           | Inr unmetDependencies \<Rightarrow>
               if unmetDependencies \<noteq> []
               then Inl (UnmetDependencies unmetDependencies)
               else Inr (s\<lparr>tasks := AList.update taskId
                         (task\<lparr>t_assignedAgentId := Some aid, t_status := Val Assigned\<rparr>) (tasks s),
                       agentStates := AList.update aid
                         ((the (map_of (agentStates s) aid))
                            \<lparr>st_taskQueue := st_taskQueue (the (map_of (agentStates s) aid)) @ [taskId]\<rparr>)
                         (agentStates s)\<rparr>)))"
  using assms by (simp add: assignTask_def Let_def split: sum.splits)

text \<open>
  C3, as the code has it. \<open>assignTask\<close> settles on an agent before it looks at the
  dependencies. For a pending task it fails with the dependency error exactly when an
  agent is settled (the given one is registered, or none is given and \<open>findBestAgent\<close>
  returns one) and some dependency is absent or not completed; the error then lists
  exactly those dependencies. With no agent given and none idle it fails with
  "No suitable agent found", whatever the dependencies.
\<close>

theorem assignTask_dependency_error:
  assumes task: "map_of (tasks s) taskId = Some task" and pending: "t_status task = Val Pending"
  shows "((\<exists>deps. assignTask taskId agentId s = Inl (UnmetDependencies deps)) \<longleftrightarrow>
            (if truthy agentId then map_of (agentStates s) (the agentId) \<noteq> None
             else (\<exists>best. findBestAgent task s = Inr (Some best))) \<and>
            (\<exists>depId \<in> set (dependency_ids task).
               \<forall>depTask. map_of (tasks s) depId = Some depTask \<longrightarrow> t_status depTask \<noteq> Val Completed)) \<and>
         (\<forall>deps. assignTask taskId agentId s = Inl (UnmetDependencies deps) \<longrightarrow>
            deps = filter (\<lambda>depId. \<forall>depTask. map_of (tasks s) depId = Some depTask \<longrightarrow>
                                      t_status depTask \<noteq> Val Completed) (dependency_ids task)) \<and>
         (\<not> truthy agentId \<and> findBestAgent task s = Inr None \<longrightarrow>
            assignTask taskId agentId s = Inl NoSuitableAgent)"
proof -
  let ?unmet = "filter (\<lambda>depId. \<forall>depTask. map_of (tasks s) depId = Some depTask \<longrightarrow>
                                      t_status depTask \<noteq> Val Completed) (dependency_ids task)"
  let ?resolved = "if truthy agentId then map_of (agentStates s) (the agentId) \<noteq> None
             else (\<exists>best. findBestAgent task s = Inr (Some best))"
  have nonempty: "?unmet \<noteq> [] \<longleftrightarrow>
      (\<exists>depId \<in> set (dependency_ids task).
         \<forall>depTask. map_of (tasks s) depId = Some depTask \<longrightarrow> t_status depTask \<noteq> Val Completed)"
    by (simp add: filter_empty_conv)
  have shape: "assignTask taskId agentId s = Inl (UnmetDependencies deps) \<longleftrightarrow>
      ?resolved \<and> deps = ?unmet \<and> ?unmet \<noteq> []" for deps
  proof (cases "resolveAgent task agentId s")
    case (Inl e)
    then have "\<not> (\<exists>aid. resolveAgent task agentId s = Inr aid)" by simp
    then have "\<not> ?resolved" unfolding resolveAgent_Inr_iff .
    moreover have "assignTask taskId agentId s \<noteq> Inl (UnmetDependencies deps)"
      using Inl resolveAgent_no_dependency_error [of task agentId s deps]
      by (simp add: assignTask_pending [OF task pending])
    ultimately show ?thesis by simp
  next
    case (Inr aid)
    then have "\<exists>aid. resolveAgent task agentId s = Inr aid" by simp
    then have "?resolved" unfolding resolveAgent_Inr_iff .
    show ?thesis
    proof (cases "checkTaskDependencies task s")
      case (Inl e)
      then have "e = TypeError" "dependency_ids task = []"
        using checkTaskDependencies_Inl [of task s e] by simp_all
      then show ?thesis using Inr Inl \<open>?resolved\<close>
        by (simp add: assignTask_pending [OF task pending])
    next
      case deps: (Inr unmetDependencies)
      then have "unmetDependencies = ?unmet" by (rule checkTaskDependencies_Inr)
      then show ?thesis using Inr deps \<open>?resolved\<close>
        by (auto simp add: assignTask_pending [OF task pending])
    qed
  qed
  have none: "assignTask taskId agentId s = Inl NoSuitableAgent"
    if "\<not> truthy agentId" "findBestAgent task s = Inr None"
    using that by (simp add: assignTask_pending [OF task pending] resolveAgent_def)
  have c1: "(\<exists>deps. assignTask taskId agentId s = Inl (UnmetDependencies deps)) \<longleftrightarrow>
            ?resolved \<and> (\<exists>depId \<in> set (dependency_ids task).
               \<forall>depTask. map_of (tasks s) depId = Some depTask \<longrightarrow> t_status depTask \<noteq> Val Completed)"
    unfolding shape nonempty [symmetric] by blast
  have c2: "\<forall>deps. assignTask taskId agentId s = Inl (UnmetDependencies deps) \<longrightarrow> deps = ?unmet"
    unfolding shape by blast
  from c1 c2 none show ?thesis by blast
qed

theorem assignTask_dependency_error_witness:
  "map_of (tasks one_agent) ''t2'' \<noteq> None \<and>
   t_status (the (map_of (tasks one_agent) ''t2'')) = Val Pending \<and>
   assignTask ''t2'' None one_agent = Inl (UnmetDependencies [''t1''])"
proof -
  have task: "map_of (tasks one_agent) ''t2'' = Some (the (map_of (tasks one_agent) ''t2''))"
    by code_simp
  have pending: "t_status (the (map_of (tasks one_agent) ''t2'')) = Val Pending" by code_simp
  have best: "findBestAgent (the (map_of (tasks one_agent) ''t2'')) one_agent = Inr (Some ''a1'')"
    by code_simp
  have deps: "dependency_ids (the (map_of (tasks one_agent) ''t2'')) = [''t1'']" by code_simp
  have absent: "map_of (tasks one_agent) ''t1'' \<noteq> None \<and>
      t_status (the (map_of (tasks one_agent) ''t1'')) = Val Pending" by code_simp
  from assignTask_dependency_error [OF task pending, of None] best deps absent task pending
  show ?thesis by auto
qed

text \<open>C3 as stated fails: with no agent given and none registered, a pending task with an
  unmet dependency is refused for want of an agent, not for its dependency.\<close>

theorem assignTask_no_agent_counterexample:
  "t_status (the (map_of (tasks no_agent) ''t2'')) = Val Pending \<and>
   checkTaskDependencies (the (map_of (tasks no_agent) ''t2'')) no_agent = Inr [''t1''] \<and>
   assignTask ''t2'' None no_agent = Inl NoSuitableAgent \<and>
   assignTask ''t2'' None no_agent \<noteq> Inl (UnmetDependencies [''t1''])"
  by code_simp

subsection \<open>executeTask\<close>

lemma executeTaskByType_agents:
  "agents s' = agents s \<Longrightarrow> executeTaskByType strat task s' = executeTaskByType strat task s"
  by (simp add: executeTaskByType_def)

lemma executeTask_unfold:
  assumes "map_of (tasks s) taskId = Some task" and "t_assignedAgentId task = Some aid"
    and "aid \<noteq> []" and "map_of (agentStates s) aid = Some agentState"
  shows "executeTask strat taskId s =
     (let task1 = task\<lparr>t_status := Val In_progress, t_startedAt := Some (clock s)\<rparr>;
          agentState1 = agentState\<lparr>st_status := Busy, st_currentTask := Some taskId\<rparr>;
          s1 = s\<lparr>tasks := AList.update taskId task1 (tasks s),
                 agentStates := AList.update aid agentState1 (agentStates s)\<rparr>
      in case executeTaskByType strat task1 s1 of
           (d, Inr result) \<Rightarrow>
             (executeTask_success taskId aid task1 agentState1 (clock s + d) result s1, Inr result)
         | (d, Inl err) \<Rightarrow>
             (executeTask_failure taskId aid task1 agentState1 (clock s + d) err s1, Inl (Thrown err)))"
  unfolding executeTask_def using assms by simp

lemma executeTask_assigned:
  assumes "map_of (tasks s) taskId = Some task" and "t_assignedAgentId task = Some aid"
    and "aid \<noteq> []" and "map_of (agentStates s) aid = Some agentState"
    and "executeTaskByType strat (task\<lparr>t_status := Val In_progress, t_startedAt := Some (clock s)\<rparr>) s
           = (d, outcome)"
  shows "executeTask strat taskId s =
     (let task1 = task\<lparr>t_status := Val In_progress, t_startedAt := Some (clock s)\<rparr>;
          agentState1 = agentState\<lparr>st_status := Busy, st_currentTask := Some taskId\<rparr>;
          s1 = s\<lparr>tasks := AList.update taskId task1 (tasks s),
                 agentStates := AList.update aid agentState1 (agentStates s)\<rparr>
      in case outcome of
           Inr result \<Rightarrow>
             (executeTask_success taskId aid task1 agentState1 (clock s + d) result s1, Inr result)
         | Inl err \<Rightarrow>
             (executeTask_failure taskId aid task1 agentState1 (clock s + d) err s1, Inl (Thrown err)))"
proof -
  let ?task1 = "task\<lparr>t_status := Val In_progress, t_startedAt := Some (clock s)\<rparr>"
  let ?s1 = "s\<lparr>tasks := AList.update taskId ?task1 (tasks s),
               agentStates := AList.update aid
                 (agentState\<lparr>st_status := Busy, st_currentTask := Some taskId\<rparr>) (agentStates s)\<rparr>"
  have "agents ?s1 = agents s" by simp
  then have "executeTaskByType strat ?task1 ?s1 = executeTaskByType strat ?task1 s"
    by (rule executeTaskByType_agents)
  with assms(5) have eq: "executeTaskByType strat ?task1 ?s1 = (d, outcome)" by simp
  show ?thesis
    unfolding executeTask_unfold [OF assms(1-4)] Let_def eq by (cases outcome) simp_all
qed

lemma executeTask_failure_agent:
  "map_of (agentStates (executeTask_failure taskId aid task agentState now err s)) aid =
     Some (agentState\<lparr>st_status := Idle, st_currentTask := None,
             st_tasksCompleted := Suc (st_tasksCompleted agentState),
             st_taskQueue := remove1 taskId (st_taskQueue agentState)\<rparr>)"
  by (simp add: executeTask_failure_def Let_def map_of_update_same)

lemma executeTask_failure_task:
  "map_of (tasks (executeTask_failure taskId aid task agentState now err s)) taskId =
     Some (task\<lparr>t_status := Val Failed, t_error := Some (error_message err), t_completedAt := Some now\<rparr>)"
  by (simp add: executeTask_failure_def Let_def map_of_update_same)

lemma executeTask_success_agent:
  "map_of (agentStates (executeTask_success taskId aid task agentState now result s)) aid =
     Some (agentState\<lparr>st_status := Idle, st_currentTask := None,
             st_tasksCompleted := Suc (st_tasksCompleted agentState),
             st_tasksSuccessful := Suc (st_tasksSuccessful agentState),
             st_averageTaskDuration :=
               (if now - the (t_startedAt task) \<noteq> 0
                then (st_averageTaskDuration agentState * of_nat (st_tasksCompleted agentState)
                        + of_int (now - the (t_startedAt task)))
                      / of_nat (Suc (st_tasksCompleted agentState))
                else st_averageTaskDuration agentState),
             st_taskQueue := remove1 taskId (st_taskQueue agentState)\<rparr>)"
  by (simp add: executeTask_success_def Let_def map_of_update_same)

lemma executeTask_success_task:
  "map_of (tasks (executeTask_success taskId aid task agentState now result s)) taskId =
     Some (task\<lparr>t_status := Val Completed, t_completedAt := Some now, t_result := Some result,
             t_actualDuration := Some (now - the (t_startedAt task))\<rparr>)"
  by (simp add: executeTask_success_def Let_def map_of_update_same)

text \<open>
  C5. For a task assigned to an agent that has a state, \<open>executeTask\<close> leaves that agent
  idle with no current task, one more completed task and the task's first occurrence
  removed from its queue (so the task is gone from a queue without repetitions),
  whatever the strategy did, and the task carries the time of completion. When the
  strategy returned, the task is completed with the result and the agent has one more
  success; when it threw, the task is failed with the error's message, the agent's
  successes are as before, and the caller gets the thrown value.
\<close>

theorem executeTask_leaves_agent_idle:
  assumes task: "map_of (tasks s) taskId = Some task"
    and assigned: "t_assignedAgentId task = Some aid" and nonempty: "aid \<noteq> []"
    and agent: "map_of (agentStates s) aid = Some agentState"
    and outcome: "executeTaskByType strat
                    (task\<lparr>t_status := Val In_progress, t_startedAt := Some (clock s)\<rparr>) s = (d, outcome)"
    and exec: "executeTask strat taskId s = (s', r)"
  shows "\<exists>agentState' task'.
     map_of (agentStates s') aid = Some agentState' \<and>
     st_status agentState' = Idle \<and> st_currentTask agentState' = None \<and>
     st_taskQueue agentState' = remove1 taskId (st_taskQueue agentState) \<and>
     (distinct (st_taskQueue agentState) \<longrightarrow> taskId \<notin> set (st_taskQueue agentState')) \<and>
     st_tasksCompleted agentState' = Suc (st_tasksCompleted agentState) \<and>
     map_of (tasks s') taskId = Some task' \<and> t_completedAt task' = Some (clock s + d) \<and>
     (case outcome of
        Inr result \<Rightarrow>
          r = Inr result \<and> t_status task' = Val Completed \<and> t_result task' = Some result \<and>
          st_tasksSuccessful agentState' = Suc (st_tasksSuccessful agentState)
      | Inl err \<Rightarrow>
          r = Inl (Thrown err) \<and> t_status task' = Val Failed \<and>
          t_error task' = Some (error_message err) \<and>
          st_tasksSuccessful agentState' = st_tasksSuccessful agentState)"
proof (cases outcome)
  case (Inl err)
  with exec executeTask_assigned [OF task assigned nonempty agent outcome]
  have s': "s' = executeTask_failure taskId aid
                  (task\<lparr>t_status := Val In_progress, t_startedAt := Some (clock s)\<rparr>)
                  (agentState\<lparr>st_status := Busy, st_currentTask := Some taskId\<rparr>) (clock s + d) err
                  (s\<lparr>tasks := AList.update taskId
                                (task\<lparr>t_status := Val In_progress, t_startedAt := Some (clock s)\<rparr>) (tasks s),
                      agentStates := AList.update aid
                                (agentState\<lparr>st_status := Busy, st_currentTask := Some taskId\<rparr>)
                                (agentStates s)\<rparr>)"
    and r: "r = Inl (Thrown err)"
    by (simp_all add: Let_def)
  show ?thesis
    unfolding s' r Inl executeTask_failure_agent executeTask_failure_task by simp
next
  case (Inr result)
  with exec executeTask_assigned [OF task assigned nonempty agent outcome]
  have s': "s' = executeTask_success taskId aid
                  (task\<lparr>t_status := Val In_progress, t_startedAt := Some (clock s)\<rparr>)
                  (agentState\<lparr>st_status := Busy, st_currentTask := Some taskId\<rparr>) (clock s + d) result
                  (s\<lparr>tasks := AList.update taskId
                                (task\<lparr>t_status := Val In_progress, t_startedAt := Some (clock s)\<rparr>) (tasks s),
                      agentStates := AList.update aid
                                (agentState\<lparr>st_status := Busy, st_currentTask := Some taskId\<rparr>)
                                (agentStates s)\<rparr>)"
    and r: "r = Inr result"
    by (simp_all add: Let_def)
  show ?thesis
    unfolding s' r Inr executeTask_success_agent executeTask_success_task by simp
qed

theorem executeTask_leaves_agent_idle_witness:
  "snd (executeTask failing_strategy ''t1'' assigned_t1) = Inl (Thrown (JsError ''boom'')) \<and>
   (\<exists>agentState' task'.
      map_of (agentStates (fst (executeTask failing_strategy ''t1'' assigned_t1))) ''a1''
        = Some agentState' \<and>
      st_status agentState' = Idle \<and> st_currentTask agentState' = None \<and>
      st_taskQueue agentState' = [] \<and> st_tasksCompleted agentState' = 1 \<and>
      st_tasksSuccessful agentState' = 0 \<and>
      map_of (tasks (fst (executeTask failing_strategy ''t1'' assigned_t1))) ''t1'' = Some task' \<and>
      t_status task' = Val Failed \<and> t_error task' = Some ''boom'' \<and> t_completedAt task' = Some 1000)"
proof -
  let ?task = "the (map_of (tasks assigned_t1) ''t1'')"
  let ?agentState = "the (map_of (agentStates assigned_t1) ''a1'')"
  have task: "map_of (tasks assigned_t1) ''t1'' = Some ?task" by code_simp
  have assigned: "t_assignedAgentId ?task = Some ''a1''" by code_simp
  have nonempty: "''a1'' \<noteq> []" by simp
  have agent: "map_of (agentStates assigned_t1) ''a1'' = Some ?agentState" by code_simp
  have outcome: "executeTaskByType failing_strategy
      (?task\<lparr>t_status := Val In_progress, t_startedAt := Some (clock assigned_t1)\<rparr>) assigned_t1
        = (1000, Inl (JsError ''boom''))" by code_simp
  have exec: "executeTask failing_strategy ''t1'' assigned_t1
      = (fst (executeTask failing_strategy ''t1'' assigned_t1),
         snd (executeTask failing_strategy ''t1'' assigned_t1))" by simp
  have before: "st_taskQueue ?agentState = [''t1''] \<and> st_tasksCompleted ?agentState = 0 \<and>
      st_tasksSuccessful ?agentState = 0 \<and> clock assigned_t1 = 0" by code_simp
  from executeTask_leaves_agent_idle [OF task assigned nonempty agent outcome exec] before
  show ?thesis by auto
qed


subsection \<open>Messages\<close>

text \<open>
  C4 on the code. \<open>t1\<close> is assigned to \<open>a1\<close> and a \<open>task_result\<close> message reports it: the
  handler sets the status and leaves the queue alone, so the completed task stays in
  the queue of \<open>a1\<close>; the same with \<open>error_report\<close> and \<open>failed\<close>. The ticks that follow
  do not remove it: \<open>t2\<close>, which waited for \<open>t1\<close>, is assigned to \<open>a1\<close> and queued behind
  it, and is never started, because the head of the queue is not in status \<open>assigned\<close>.
\<close>

theorem task_result_leaves_task_queued:
  "t_status (the (map_of (tasks (step example_strategy
       (SendMessage ''m1'' (example_message Task_result (Some ''t1''))) assigned_t1)) ''t1''))
     = Val Completed \<and>
   st_taskQueue (the (map_of (agentStates (step example_strategy
       (SendMessage ''m1'' (example_message Task_result (Some ''t1''))) assigned_t1)) ''a1''))
     = [''t1''] \<and>
   t_status (the (map_of (tasks (step example_strategy
       (SendMessage ''m1'' (example_message Error_report (Some ''t1''))) assigned_t1)) ''t1''))
     = Val Failed \<and>
   st_taskQueue (the (map_of (agentStates (step example_strategy
       (SendMessage ''m1'' (example_message Error_report (Some ''t1''))) assigned_t1)) ''a1''))
     = [''t1''] \<and>
   st_taskQueue (the (map_of (agentStates (run example_strategy
       [SendMessage ''m1'' (example_message Task_result (Some ''t1'')), Tick, Tick] assigned_t1)) ''a1''))
     = [''t1'', ''t2''] \<and>
   t_status (the (map_of (tasks (run example_strategy
       [SendMessage ''m1'' (example_message Task_result (Some ''t1'')), Tick, Tick] assigned_t1)) ''t2''))
     = Val Assigned"
  by code_simp

text \<open>
  C1 on the code. \<open>sendMessage\<close> pushes the message on the queue and dispatches it at once;
  the message stays on the queue, and the next tick dispatches it again. Only the
  \<open>status_update\<close> handler writes \<open>lastActiveAt\<close> after an agent's creation: the message
  sent at time 1000 sets it to 1000, and the tick at time 2000 sets it to 2000.
\<close>

theorem sendMessage_then_tick_dispatches_twice:
  "map m_id (messageQueue (run example_strategy
       [AdvanceClock 1000, SendMessage ''m1'' (example_message Status_update None)] only_agent))
     = [''m1''] \<and>
   st_lastActiveAt (the (map_of (agentStates (run example_strategy
       [AdvanceClock 1000, SendMessage ''m1'' (example_message Status_update None)] only_agent)) ''a1''))
     = 1000 \<and>
   st_lastActiveAt (the (map_of (agentStates (run example_strategy
       [AdvanceClock 1000, SendMessage ''m1'' (example_message Status_update None),
        AdvanceClock 1000, Tick] only_agent)) ''a1''))
     = 2000 \<and>
   messageQueue (run example_strategy
       [AdvanceClock 1000, SendMessage ''m1'' (example_message Status_update None),
        AdvanceClock 1000, Tick] only_agent) = []"
  by code_simp

section \<open>Status transitions\<close>

lemma status_forward_refl: "status_forward s s"
  by (simp add: status_forward_def)

lemma status_forward_trans:
  "status_forward s s' \<Longrightarrow> status_forward s' s'' \<Longrightarrow> status_forward s s''"
  unfolding status_forward_def by (meson le_trans)

lemma status_forward_same: "tasks s' = tasks s \<Longrightarrow> status_forward s s'"
  by (simp add: status_forward_def)

lemma status_forward_update:
  assumes "tasks s' = AList.update k t' (tasks s)"
    and "\<And>t. map_of (tasks s) k = Some t \<Longrightarrow> status_rank (t_status t) \<le> status_rank (t_status t')"
  shows "status_forward s s'"
  unfolding status_forward_def using assms by (auto simp add: AList.update_conv')

lemma status_forward_caught:
  "(\<And>s'. r = Inr s' \<Longrightarrow> status_forward s s') \<Longrightarrow> status_forward s (caught s r)"
  by (cases r) (simp_all add: caught_def status_forward_refl)

lemma status_forward_foldl:
  assumes "\<And>s x. status_forward s (f s x)"
  shows "status_forward s (foldl f s xs)"
proof (induction xs arbitrary: s)
  case Nil
  show ?case by (simp add: status_forward_refl)
next
  case (Cons x xs)
  have "status_forward s (f s x)" by (rule assms)
  moreover have "status_forward (f s x) (foldl f (f s x) xs)" by (rule Cons.IH)
  ultimately show ?case by (simp add: status_forward_trans)
qed

lemma status_rank_le_2 [simp]: "status_rank x \<le> 2"
proof (cases x)
  case (Val status)
  then show ?thesis by (cases status) simp_all
qed simp_all

subsection \<open>The single operations\<close>

lemma tasks_createAgent: "createAgent config s = Inr s' \<Longrightarrow> tasks s' = tasks s"
  by (auto simp add: createAgent_def split: if_splits option.splits)

lemma tasks_cancelTask:
  "tasks (fst (cancelTask taskId s)) =
     (case map_of (tasks s) taskId of
        None \<Rightarrow> tasks s
      | Some task \<Rightarrow>
          AList.update taskId (task\<lparr>t_status := Val Cancelled, t_completedAt := Some (clock s)\<rparr>) (tasks s))"
  by (simp add: cancelTask_def Let_def split: option.splits)

lemma status_forward_cancelTask: "status_forward s (fst (cancelTask taskId s))"
proof (cases "map_of (tasks s) taskId")
  case None
  then show ?thesis by (simp add: status_forward_same tasks_cancelTask)
next
  case (Some task)
  show ?thesis
    by (rule status_forward_update
          [where k = taskId and t' = "task\<lparr>t_status := Val Cancelled, t_completedAt := Some (clock s)\<rparr>"])
       (simp_all add: tasks_cancelTask Some)
qed

lemma tasks_removeAgent:
  "tasks (fst (removeAgent agentId s)) = tasks s \<or>
   (\<exists>taskId. tasks (fst (removeAgent agentId s)) = tasks (fst (cancelTask taskId s)))"
  by (auto simp add: removeAgent_def Let_def split: option.splits)

lemma status_forward_removeAgent: "status_forward s (fst (removeAgent agentId s))"
proof -
  from tasks_removeAgent [of agentId s] show ?thesis
  proof
    assume "tasks (fst (removeAgent agentId s)) = tasks s"
    then show ?thesis by (rule status_forward_same)
  next
    assume "\<exists>taskId. tasks (fst (removeAgent agentId s)) = tasks (fst (cancelTask taskId s))"
    then obtain taskId where
      t: "tasks (fst (removeAgent agentId s)) = tasks (fst (cancelTask taskId s))" ..
    have "status_forward (fst (cancelTask taskId s)) (fst (removeAgent agentId s))"
      using t by (rule status_forward_same)
    with status_forward_cancelTask [of s taskId] show ?thesis by (rule status_forward_trans)
  qed
qed

lemma status_forward_createTask:
  assumes "map_of (tasks s) taskId = None"
  shows "status_forward s (fst (createTask taskId taskConfig s))"
  by (rule status_forward_update
        [where k = taskId and
           t' = "spread_task (task_defaults taskId (clock s) taskConfig) taskConfig"])
     (simp_all add: createTask_def Let_def assms)

lemma status_forward_assignTask:
  assumes "assignTask taskId agentId s = Inr s'"
  shows "status_forward s s'"
proof -
  from assms obtain task where task: "map_of (tasks s) taskId = Some task"
    by (auto simp add: assignTask_def split: option.splits)
  from assms task have pending: "t_status task = Val Pending"
    by (auto simp add: assignTask_def split: if_splits)
  from assms obtain aid where
    "tasks s' = AList.update taskId (task\<lparr>t_assignedAgentId := Some aid, t_status := Val Assigned\<rparr>) (tasks s)"
    unfolding assignTask_pending [OF task pending]
    by (auto split: sum.splits if_splits)
  then show ?thesis
    by (rule status_forward_update) (simp add: task pending)
qed

lemma tasks_executeTask_failure:
  "tasks (executeTask_failure taskId aid task agentState now err s) =
     AList.update taskId
       (task\<lparr>t_status := Val Failed, t_error := Some (error_message err), t_completedAt := Some now\<rparr>)
       (tasks s)"
  by (simp add: executeTask_failure_def Let_def)

lemma tasks_executeTask_success:
  "tasks (executeTask_success taskId aid task agentState now result s) =
     AList.update taskId
       (task\<lparr>t_status := Val Completed, t_completedAt := Some now, t_result := Some result,
              t_actualDuration := Some (now - the (t_startedAt task))\<rparr>)
       (tasks s)"
  by (simp add: executeTask_success_def Let_def)

lemma status_forward_executeTask: "status_forward s (fst (executeTask strat taskId s))"
proof (cases "map_of (tasks s) taskId")
  case None
  then show ?thesis by (simp add: executeTask_def status_forward_refl)
next
  case (Some task)
  show ?thesis
  proof (cases "truthy (t_assignedAgentId task)")
    case False
    with Some show ?thesis by (simp add: executeTask_def status_forward_refl)
  next
    case True
    then obtain aid where aid: "t_assignedAgentId task = Some aid" "aid \<noteq> []"
      by (cases "t_assignedAgentId task") auto
    show ?thesis
    proof (cases "map_of (agentStates s) aid")
      case None
      with Some aid show ?thesis by (simp add: executeTask_def status_forward_refl)
    next
      case (Some agentState)
      let ?task1 = "task\<lparr>t_status := Val In_progress, t_startedAt := Some (clock s)\<rparr>"
      let ?agentState1 = "agentState\<lparr>st_status := Busy, st_currentTask := Some taskId\<rparr>"
      let ?s1 = "s\<lparr>tasks := AList.update taskId ?task1 (tasks s),
                   agentStates := AList.update aid ?agentState1 (agentStates s)\<rparr>"
      obtain d outcome where o: "executeTaskByType strat ?task1 s = (d, outcome)"
        by (cases "executeTaskByType strat ?task1 s")
      note unfold = executeTask_assigned [OF \<open>map_of (tasks s) taskId = Some task\<close> aid Some o]
      have first: "status_forward s ?s1"
        by (rule status_forward_update [where k = taskId and t' = ?task1]) simp_all
      show ?thesis
      proof (cases outcome)
        case (Inl err)
        have "status_forward ?s1
                (executeTask_failure taskId aid ?task1 ?agentState1 (clock s + d) err ?s1)"
          by (rule status_forward_update [where k = taskId and
                t' = "?task1\<lparr>t_status := Val Failed, t_error := Some (error_message err),
                              t_completedAt := Some (clock s + d)\<rparr>"])
             (simp_all add: tasks_executeTask_failure)
        with first show ?thesis unfolding unfold Let_def Inl
          by (simp add: status_forward_trans)
      next
        case (Inr result)
        have "status_forward ?s1
                (executeTask_success taskId aid ?task1 ?agentState1 (clock s + d) result ?s1)"
          by (rule status_forward_update [where k = taskId and
                t' = "?task1\<lparr>t_status := Val Completed, t_completedAt := Some (clock s + d),
                              t_result := Some result,
                              t_actualDuration := Some (clock s + d - the (t_startedAt ?task1))\<rparr>"])
             (simp_all add: tasks_executeTask_success)
        with first show ?thesis unfolding unfold Let_def Inr
          by (simp add: status_forward_trans)
      qed
    qed
  qed
qed

lemma tasks_createCollaborationLinks:
  "createCollaborationLinks agentIds s = Inr s' \<Longrightarrow> tasks s' = tasks s"
  by (auto simp add: createCollaborationLinks_def split: option.splits)

lemma status_forward_handleTaskResultMessage:
  "handleTaskResultMessage message s = Inr s' \<Longrightarrow> status_forward s s'"
proof -
  assume a: "handleTaskResultMessage message s = Inr s'"
  show ?thesis
  proof (cases "truthy (c_taskId (m_content message)) \<and>
                map_of (tasks s) (the (c_taskId (m_content message))) \<noteq> None")
    case True
    with a have "tasks s' = AList.update (the (c_taskId (m_content message)))
        ((the (map_of (tasks s) (the (c_taskId (m_content message)))))
           \<lparr>t_result := c_result (m_content message), t_status := Val Completed\<rparr>) (tasks s)"
      by (auto simp add: handleTaskResultMessage_def Let_def)
    then show ?thesis by (rule status_forward_update) simp
  next
    case False
    with a have "s' = s" by (auto simp add: handleTaskResultMessage_def Let_def)
    then show ?thesis by (simp add: status_forward_refl)
  qed
qed

lemma status_forward_handleErrorReportMessage:
  "handleErrorReportMessage message s = Inr s' \<Longrightarrow> status_forward s s'"
proof -
  assume a: "handleErrorReportMessage message s = Inr s'"
  show ?thesis
  proof (cases "truthy (c_taskId (m_content message)) \<and>
                map_of (tasks s) (the (c_taskId (m_content message))) \<noteq> None")
    case True
    with a have "tasks s' = AList.update (the (c_taskId (m_content message)))
        ((the (map_of (tasks s) (the (c_taskId (m_content message)))))
           \<lparr>t_status := Val Failed, t_error := c_error (m_content message)\<rparr>) (tasks s)"
      by (auto simp add: handleErrorReportMessage_def Let_def)
    then show ?thesis by (rule status_forward_update) simp
  next
    case False
    with a have "s' = s" by (auto simp add: handleErrorReportMessage_def Let_def)
    then show ?thesis by (simp add: status_forward_refl)
  qed
qed

lemma status_forward_handleTaskAssignmentMessage:
  "handleTaskAssignmentMessage message s = Inr s' \<Longrightarrow> status_forward s s'"
  by (auto simp add: handleTaskAssignmentMessage_def Let_def status_forward_refl
        split: if_splits dest: status_forward_assignTask)

lemma status_forward_handleStatusUpdateMessage:
  "handleStatusUpdateMessage message s = Inr s' \<Longrightarrow> status_forward s s'"
  by (auto simp add: handleStatusUpdateMessage_def status_forward_same split: option.splits)

lemma status_forward_handleCollaborationRequestMessage:
  "handleCollaborationRequestMessage message s = Inr s' \<Longrightarrow> status_forward s s'"
  by (auto simp add: handleCollaborationRequestMessage_def status_forward_same
        dest: tasks_createCollaborationLinks)

lemma status_forward_processMessage:
  assumes "processMessage message s = Inr s'"
  shows "status_forward s s'"
proof (cases "map_of (agentStates s) (m_toAgentId message)")
  case None
  with assms show ?thesis by (simp add: processMessage_def status_forward_refl)
next
  case (Some toAgent)
  with assms show ?thesis
    by (cases "m_type message")
       (simp_all add: processMessage_def status_forward_handleTaskAssignmentMessage
          status_forward_handleTaskResultMessage status_forward_handleCollaborationRequestMessage
          status_forward_handleStatusUpdateMessage status_forward_handleErrorReportMessage)
qed

lemma status_forward_sendMessage: "status_forward s (fst (sendMessage messageId message s))"
proof -
  let ?full = "\<lparr>m_id = messageId, m_fromAgentId = mi_fromAgentId message,
                 m_toAgentId = mi_toAgentId message, m_type = mi_type message,
                 m_content = mi_content message, m_timestamp = clock s,
                 m_priority = mi_priority message\<rparr>"
  let ?s1 = "s\<lparr>messageQueue := messageQueue s @ [?full]\<rparr>"
  have first: "status_forward s ?s1" by (rule status_forward_same) simp
  show ?thesis
  proof (cases "processMessage ?full ?s1")
    case (Inl e)
    with first show ?thesis by (simp add: sendMessage_def Let_def)
  next
    case (Inr s2)
    then have "status_forward ?s1 s2" by (rule status_forward_processMessage)
    with first have "status_forward s s2" by (rule status_forward_trans)
    with Inr show ?thesis by (simp add: sendMessage_def Let_def)
  qed
qed

subsection \<open>The passes of a tick\<close>

lemma status_forward_processPendingTask: "status_forward s (processPendingTask s task)"
  unfolding processPendingTask_def
  by (auto intro: status_forward_refl status_forward_caught status_forward_assignTask
        split: sum.splits js.splits)

lemma status_forward_processPendingTasks: "status_forward s (processPendingTasks s)"
  unfolding processPendingTasks_def
  by (rule status_forward_foldl) (rule status_forward_processPendingTask)

lemma status_forward_processMessageQueue: "status_forward s (processMessageQueue s)"
proof -
  have "status_forward s (s\<lparr>messageQueue := []\<rparr>)" by (rule status_forward_same) simp
  moreover have "status_forward (s\<lparr>messageQueue := []\<rparr>) (processMessageQueue s)"
    unfolding processMessageQueue_def
    by (rule status_forward_foldl) (auto intro: status_forward_caught status_forward_processMessage)
  ultimately show ?thesis by (rule status_forward_trans)
qed

lemma status_forward_updateAgentState: "status_forward s (updateAgentState strat s agentId)"
  unfolding updateAgentState_def
  by (auto simp add: Let_def status_forward_refl status_forward_executeTask split: option.splits)

lemma status_forward_updateAgentStates: "status_forward s (updateAgentStates strat s)"
  unfolding updateAgentStates_def
  by (rule status_forward_foldl) (rule status_forward_updateAgentState)

lemma status_forward_handleTimeout: "status_forward s (handleTimeout now s taskId)"
  unfolding handleTimeout_def
  by (auto simp add: status_forward_refl status_forward_cancelTask split: option.splits)

lemma status_forward_handleTimeouts: "status_forward s (handleTimeouts s)"
  unfolding handleTimeouts_def
  by (rule status_forward_foldl) (rule status_forward_handleTimeout)

lemma tasks_moveTask:
  "tasks (moveTask heaviestId lightestId s) = tasks s \<or>
   (\<exists>taskToMove task. map_of (tasks s) taskToMove = Some task \<and>
      tasks (moveTask heaviestId lightestId s) =
        AList.update taskToMove (task\<lparr>t_assignedAgentId := Some lightestId\<rparr>) (tasks s))"
  by (auto simp add: moveTask_def Let_def split: option.splits)

lemma status_forward_moveTask: "status_forward s (moveTask heaviestId lightestId s)"
proof -
  from tasks_moveTask [of heaviestId lightestId s] show ?thesis
  proof
    assume "tasks (moveTask heaviestId lightestId s) = tasks s"
    then show ?thesis by (rule status_forward_same)
  next
    assume "\<exists>taskToMove task. map_of (tasks s) taskToMove = Some task \<and>
      tasks (moveTask heaviestId lightestId s) =
        AList.update taskToMove (task\<lparr>t_assignedAgentId := Some lightestId\<rparr>) (tasks s)"
    then obtain taskToMove task where task: "map_of (tasks s) taskToMove = Some task"
      and t: "tasks (moveTask heaviestId lightestId s) =
        AList.update taskToMove (task\<lparr>t_assignedAgentId := Some lightestId\<rparr>) (tasks s)"
      by blast
    from t show ?thesis by (rule status_forward_update) (simp add: task)
  qed
qed

lemma status_forward_optimizeTaskDistribution: "status_forward s (optimizeTaskDistribution s)"
proof (cases "length (agentLoads s) < 2")
  case True
  then show ?thesis by (simp add: optimizeTaskDistribution_def status_forward_refl)
next
  case False
  show ?thesis
  proof (cases "int (snd (last (sort_key snd (agentLoads s))))
                  - int (snd (hd (sort_key snd (agentLoads s)))) > 3")
    case True
    have "optimizeTaskDistribution s =
            moveTask (fst (last (sort_key snd (agentLoads s))))
              (fst (hd (sort_key snd (agentLoads s)))) s"
      unfolding optimizeTaskDistribution_def Let_def using False True by (simp only: if_False if_True)
    then show ?thesis by (simp only: status_forward_moveTask)
  next
    case nogap: False
    have "optimizeTaskDistribution s = s"
      unfolding optimizeTaskDistribution_def Let_def using False nogap by (simp only: if_False)
    then show ?thesis by (simp only: status_forward_refl)
  qed
qed

lemma status_forward_orchestratorTick: "status_forward s (orchestratorTick strat s)"
proof -
  let ?s1 = "processPendingTasks s"
  let ?s2 = "processMessageQueue ?s1"
  let ?s3 = "updateAgentStates strat ?s2"
  let ?s4 = "handleTimeouts ?s3"
  have 1: "status_forward s ?s1" by (rule status_forward_processPendingTasks)
  have 2: "status_forward ?s1 ?s2" by (rule status_forward_processMessageQueue)
  have 3: "status_forward ?s2 ?s3" by (rule status_forward_updateAgentStates)
  have 4: "status_forward ?s3 ?s4" by (rule status_forward_handleTimeouts)
  have 5: "status_forward ?s4 (optimizeTaskDistribution ?s4)"
    by (rule status_forward_optimizeTaskDistribution)
  have "status_forward s (optimizeTaskDistribution ?s4)"
    by (rule status_forward_trans [OF status_forward_trans [OF status_forward_trans
          [OF status_forward_trans [OF 1 2] 3] 4] 5])
  then show ?thesis by (simp only: orchestratorTick_def)
qed

subsection \<open>Every operation, every run\<close>

lemma status_forward_step:
  assumes "fresh_id x s"
  shows "status_forward s (step strat x s)"
proof (cases x)
  case (CreateAgent config)
  then show ?thesis
    by (auto intro: status_forward_caught status_forward_same dest: tasks_createAgent)
next
  case (RemoveAgent agentId)
  then show ?thesis by (simp add: status_forward_removeAgent)
next
  case (CreateTask taskId taskConfig)
  with assms show ?thesis by (simp add: status_forward_createTask)
next
  case (AssignTask taskId agentId)
  then show ?thesis by (auto intro: status_forward_caught status_forward_assignTask)
next
  case (ExecuteTask taskId)
  then show ?thesis by (simp add: status_forward_executeTask)
next
  case (CancelTask taskId)
  then show ?thesis by (simp add: status_forward_cancelTask)
next
  case (CreateCollaboration agentIds)
  then show ?thesis
    by (auto intro: status_forward_caught status_forward_same dest: tasks_createCollaborationLinks)
next
  case (SendMessage messageId message)
  then show ?thesis by (simp add: status_forward_sendMessage)
next
  case Tick
  then show ?thesis by (simp add: status_forward_orchestratorTick)
next
  case (AdvanceClock d)
  then show ?thesis by (simp add: status_forward_same)
qed

lemma status_forward_run:
  "fresh_run strat ops s \<Longrightarrow> status_forward s (run strat ops s)"
proof (induction ops arbitrary: s)
  case Nil
  show ?case by (simp add: status_forward_refl)
next
  case (Cons x xs)
  then have "status_forward s (step strat x s)" by (simp add: status_forward_step)
  moreover from Cons have "status_forward (step strat x s) (run strat xs (step strat x s))" by simp
  ultimately show ?case by (simp add: status_forward_trans)
qed

lemma cancelTask_cancels:
  assumes "map_of (tasks s) taskId = Some task"
  shows "map_of (tasks (fst (cancelTask taskId s))) taskId =
           Some (task\<lparr>t_status := Val Cancelled, t_completedAt := Some (clock s)\<rparr>)"
  by (simp add: tasks_cancelTask assms map_of_update_same)

text \<open>
  C2, as the code has it. Along every run of operations whose generated task ids are
  fresh, a task is never lost and its status never moves back on the path
  \<open>pending \<rightarrow> assigned \<rightarrow> {in_progress, completed, failed, cancelled}\<close>: it does not
  return to \<open>pending\<close>, and does not return to \<open>assigned\<close> once it has left it. Inside
  the last group the status may still change. \<open>cancelTask\<close> sets \<open>cancelled\<close> whatever
  the status was, so cancellation is reachable from every status.
\<close>

theorem status_moves_forward:
  assumes "fresh_run strat ops s" and "map_of (tasks s) taskId = Some task"
  shows "(\<exists>task'. map_of (tasks (run strat ops s)) taskId = Some task' \<and>
            status_rank (t_status task) \<le> status_rank (t_status task')) \<and>
         (\<exists>task'. map_of (tasks (fst (cancelTask taskId s))) taskId = Some task' \<and>
            t_status task' = Val Cancelled)"
proof -
  from assms(1) have "status_forward s (run strat ops s)" by (rule status_forward_run)
  with assms(2) have "\<exists>task'. map_of (tasks (run strat ops s)) taskId = Some task' \<and>
            status_rank (t_status task) \<le> status_rank (t_status task')"
    unfolding status_forward_def by blast
  moreover have "\<exists>task'. map_of (tasks (fst (cancelTask taskId s))) taskId = Some task' \<and>
            t_status task' = Val Cancelled"
    using cancelTask_cancels [OF assms(2)] by simp
  ultimately show ?thesis ..
qed

theorem status_moves_forward_witness:
  "map_of (tasks assigned_t1) ''t1'' \<noteq> None \<and>
   t_status (the (map_of (tasks assigned_t1) ''t1'')) = Val Assigned \<and>
   (\<exists>task'. map_of (tasks (run example_strategy
        [Tick, SendMessage ''m1'' (example_message Error_report (Some ''t1'')), CreateTask ''t3'' empty_config]
        assigned_t1)) ''t1'' = Some task' \<and>
      1 \<le> status_rank (t_status task')) \<and>
   (\<exists>task'. map_of (tasks (fst (cancelTask ''t1'' assigned_t1))) ''t1'' = Some task' \<and>
      t_status task' = Val Cancelled)"
proof -
  have fresh: "fresh_run example_strategy
      [Tick, SendMessage ''m1'' (example_message Error_report (Some ''t1'')), CreateTask ''t3'' empty_config]
      assigned_t1" by code_simp
  have task: "map_of (tasks assigned_t1) ''t1'' = Some (the (map_of (tasks assigned_t1) ''t1''))"
    by code_simp
  have st: "t_status (the (map_of (tasks assigned_t1) ''t1'')) = Val Assigned" by code_simp
  have ne: "map_of (tasks assigned_t1) ''t1'' \<noteq> None" by code_simp
  from status_moves_forward [OF fresh task] ne st show ?thesis by simp
qed

text \<open>C2 as stated fails: \<open>t1\<close> is executed and completed, then an \<open>error_report\<close> message
  names it, and the completed task is failed.\<close>

theorem terminal_status_changes_counterexample:
  "t_status (the (map_of (tasks (run example_strategy [ExecuteTask ''t1''] assigned_t1)) ''t1''))
     = Val Completed \<and>
   t_status (the (map_of (tasks (run example_strategy
       [ExecuteTask ''t1'', SendMessage ''m1'' (example_message Error_report (Some ''t1''))]
       assigned_t1)) ''t1''))
     = Val Failed"
  by code_simp

section \<open>Invariants of the reachable states\<close>

subsection \<open>The agent registry\<close>

lemma registry_ok_same:
  "agents s' = agents s \<Longrightarrow> agentStates s' = agentStates s \<Longrightarrow> registry_ok s \<Longrightarrow> registry_ok s'"
  by (simp add: registry_ok_def)

lemma registry_ok_update:
  assumes "registry_ok s" and "agents s' = agents s"
    and "agentStates s' = AList.update aid st' (agentStates s)"
    and "map_of (agentStates s) aid = Some st"
    and "st_tasksSuccessful st' \<le> st_tasksCompleted st'"
  shows "registry_ok s'"
  using assms unfolding registry_ok_def
  by (auto simp add: AList.update_conv' distinct_update)

lemma registry_ok_caught:
  "registry_ok s \<Longrightarrow> (\<And>s'. r = Inr s' \<Longrightarrow> registry_ok s') \<Longrightarrow> registry_ok (caught s r)"
  by (cases r) (simp_all add: caught_def)

lemma invariant_foldl:
  assumes "\<And>s x. P s \<Longrightarrow> P (f s x)" and "P s"
  shows "P (foldl f s xs)"
  using assms(2) by (induction xs arbitrary: s) (simp_all add: assms(1))

lemma registry_ok_init: "registry_ok init_orch"
  by (simp add: registry_ok_def init_orch_def)

lemma registry_ok_createAgent:
  assumes "registry_ok s" and "createAgent config s = Inr s'"
  shows "registry_ok s'"
proof -
  from assms(2) have st: "agentStates s' =
               AList.update (cfg_id config) (initialState (clock s) config) (agentStates s)"
    by (auto simp add: createAgent_def split: if_splits option.splits)
  show ?thesis
    using assms(1) unfolding registry_ok_def st
    by (auto simp add: AList.update_conv' distinct_update initialState_def)
qed

lemma registry_ok_cancelTask:
  assumes "registry_ok s"
  shows "registry_ok (fst (cancelTask taskId s))"
proof (cases "map_of (tasks s) taskId")
  case None
  with assms show ?thesis by (simp add: cancelTask_def)
next
  case (Some task)
  let ?s1 = "s\<lparr>tasks := AList.update taskId
                (task\<lparr>t_status := Val Cancelled, t_completedAt := Some (clock s)\<rparr>) (tasks s)\<rparr>"
  have s1: "registry_ok ?s1" using assms by (simp add: registry_ok_def)
  show ?thesis
  proof (cases "truthy (t_assignedAgentId task)")
    case False
    with Some s1 show ?thesis by (simp add: cancelTask_def Let_def)
  next
    case True
    show ?thesis
    proof (cases "map_of (agentStates s) (the (t_assignedAgentId task))")
      case None
      with Some True s1 show ?thesis by (simp add: cancelTask_def Let_def)
    next
      case agent: (Some agentState)
      let ?st1 = "agentState\<lparr>st_taskQueue := remove1 taskId (st_taskQueue agentState)\<rparr>"
      let ?st2 = "if st_currentTask ?st1 = Some taskId
                  then ?st1\<lparr>st_currentTask := None, st_status := Idle\<rparr> else ?st1"
      have eq: "fst (cancelTask taskId s) =
          ?s1\<lparr>agentStates := AList.update (the (t_assignedAgentId task)) ?st2 (agentStates ?s1)\<rparr>"
        using Some True agent by (simp add: cancelTask_def Let_def)
      have "st_tasksSuccessful agentState \<le> st_tasksCompleted agentState"
        using assms agent by (simp add: registry_ok_def)
      then have le: "st_tasksSuccessful ?st2 \<le> st_tasksCompleted ?st2" by simp
      show ?thesis unfolding eq
        by (rule registry_ok_update [OF s1 _ _ _ le, where aid = "the (t_assignedAgentId task)"])
           (simp_all add: agent)
    qed
  qed
qed

lemma registry_ok_delete:
  assumes "registry_ok s"
  shows "registry_ok (s\<lparr>collaborationGraph := g, agents := AList.delete agentId (agents s),
                        agentStates := AList.delete agentId (agentStates s)\<rparr>)"
  using assms unfolding registry_ok_def
  by (auto simp add: AList.delete_conv' distinct_delete split: if_splits)

lemma registry_ok_removeAgent:
  assumes "registry_ok s"
  shows "registry_ok (fst (removeAgent agentId s))"
proof (cases "map_of (agents s) agentId = None")
  case True
  with assms show ?thesis by (simp add: removeAgent_def)
next
  case False
  let ?s1 = "case map_of (agentStates s) agentId of
               None \<Rightarrow> s
             | Some agentState \<Rightarrow>
                 if truthy (st_currentTask agentState)
                 then fst (cancelTask (the (st_currentTask agentState)) s) else s"
  have s1: "registry_ok ?s1"
    using assms by (auto simp add: registry_ok_cancelTask split: option.splits)
  have "fst (removeAgent agentId s) =
          ?s1\<lparr>collaborationGraph := map (\<lambda>(k, collaborators). (k, remove1 agentId collaborators))
                                     (AList.delete agentId (collaborationGraph ?s1)),
               agents := AList.delete agentId (agents ?s1),
               agentStates := AList.delete agentId (agentStates ?s1)\<rparr>"
  proof -
    from False obtain config where "map_of (agents s) agentId = Some config" by auto
    then show ?thesis by (simp add: removeAgent_def Let_def)
  qed
  then show ?thesis using registry_ok_delete [OF s1] by simp
qed

lemma registry_ok_createTask: "registry_ok s \<Longrightarrow> registry_ok (fst (createTask taskId taskConfig s))"
  by (simp add: createTask_def Let_def registry_ok_def)

lemma resolveAgent_registered:
  "resolveAgent task agentId s = Inr aid \<Longrightarrow> map_of (agentStates s) aid \<noteq> None"
  by (auto simp add: resolveAgent_def split: if_splits sum.splits option.splits)

lemma registry_ok_assignTask:
  assumes "registry_ok s" and "assignTask taskId agentId s = Inr s'"
  shows "registry_ok s'"
proof -
  from assms(2) obtain task where task: "map_of (tasks s) taskId = Some task"
    by (auto simp add: assignTask_def split: option.splits)
  from assms(2) task have pending: "t_status task = Val Pending"
    by (auto simp add: assignTask_def split: if_splits)
  from assms(2) obtain aid where aid: "resolveAgent task agentId s = Inr aid"
    and s': "s' = s\<lparr>tasks := AList.update taskId
                         (task\<lparr>t_assignedAgentId := Some aid, t_status := Val Assigned\<rparr>) (tasks s),
                       agentStates := AList.update aid
                         ((the (map_of (agentStates s) aid))
                            \<lparr>st_taskQueue := st_taskQueue (the (map_of (agentStates s) aid)) @ [taskId]\<rparr>)
                         (agentStates s)\<rparr>"
    unfolding assignTask_pending [OF task pending]
    by (auto split: sum.splits if_splits)
  from resolveAgent_registered [OF aid] obtain st where st: "map_of (agentStates s) aid = Some st"
    by auto
  with assms(1) have le: "st_tasksSuccessful st \<le> st_tasksCompleted st"
    by (simp add: registry_ok_def)
  show ?thesis
    by (rule registry_ok_update [OF assms(1) _ _ st, where st' = "st\<lparr>st_taskQueue := st_taskQueue st @ [taskId]\<rparr>"])
       (simp_all add: s' st le)
qed

lemma registry_ok_executeTask:
  assumes ok: "registry_ok s"
  shows "registry_ok (fst (executeTask strat taskId s))"
proof (cases "map_of (tasks s) taskId")
  case None
  with ok show ?thesis by (simp add: executeTask_def)
next
  case (Some task)
  show ?thesis
  proof (cases "truthy (t_assignedAgentId task)")
    case False
    with Some ok show ?thesis by (simp add: executeTask_def)
  next
    case True
    then obtain aid where aid: "t_assignedAgentId task = Some aid" "aid \<noteq> []"
      by (cases "t_assignedAgentId task") auto
    show ?thesis
    proof (cases "map_of (agentStates s) aid")
      case None
      with Some aid ok show ?thesis by (simp add: executeTask_def)
    next
      case agent: (Some agentState)
      let ?task1 = "task\<lparr>t_status := Val In_progress, t_startedAt := Some (clock s)\<rparr>"
      let ?agentState1 = "agentState\<lparr>st_status := Busy, st_currentTask := Some taskId\<rparr>"
      let ?s1 = "s\<lparr>tasks := AList.update taskId ?task1 (tasks s),
                   agentStates := AList.update aid ?agentState1 (agentStates s)\<rparr>"
      obtain d outcome where o: "executeTaskByType strat ?task1 s = (d, outcome)"
        by (cases "executeTaskByType strat ?task1 s")
      note unfold = executeTask_assigned [OF Some aid agent o]
      from ok agent have le: "st_tasksSuccessful agentState \<le> st_tasksCompleted agentState"
        by (simp add: registry_ok_def)
      have s1: "registry_ok ?s1"
        by (rule registry_ok_update [OF ok _ _ agent, where st' = ?agentState1])
           (simp_all add: le)
      have agent1: "map_of (agentStates ?s1) aid = Some ?agentState1"
        by (simp add: map_of_update_same)
      show ?thesis
      proof (cases outcome)
        case (Inl err)
        have "registry_ok (executeTask_failure taskId aid ?task1 ?agentState1 (clock s + d) err ?s1)"
          by (rule registry_ok_update [OF s1 _ _ agent1,
                where st' = "?agentState1\<lparr>st_status := Idle, st_currentTask := None,
                     st_tasksCompleted := Suc (st_tasksCompleted ?agentState1),
                     st_taskQueue := remove1 taskId (st_taskQueue ?agentState1)\<rparr>"])
             (simp_all add: executeTask_failure_def Let_def le le_SucI)
        then show ?thesis unfolding unfold Let_def Inl by simp
      next
        case (Inr result)
        have "registry_ok (executeTask_success taskId aid ?task1 ?agentState1 (clock s + d) result ?s1)"
          by (rule registry_ok_update [OF s1 _ _ agent1,
                where st' = "the (map_of (agentStates
                    (executeTask_success taskId aid ?task1 ?agentState1 (clock s + d) result ?s1)) aid)"])
             (simp_all add: executeTask_success_def Let_def le map_of_update_same)
        then show ?thesis unfolding unfold Let_def Inr by simp
      qed
    qed
  qed
qed

lemma registry_ok_createCollaborationLinks:
  assumes "registry_ok s" and "createCollaborationLinks agentIds s = Inr s'"
  shows "registry_ok s'"
proof -
  from assms(2) have "agents s' = agents s" and "agentStates s' = agentStates s"
    by (auto simp add: createCollaborationLinks_def split: option.splits)
  then show ?thesis using assms(1) by (rule registry_ok_same)
qed

lemma registry_ok_handleTaskResultMessage:
  assumes "registry_ok s" and "handleTaskResultMessage message s = Inr s'"
  shows "registry_ok s'"
proof -
  from assms(2) have "agents s' = agents s" and "agentStates s' = agentStates s"
    by (auto simp add: handleTaskResultMessage_def Let_def split: if_splits)
  then show ?thesis using assms(1) by (rule registry_ok_same)
qed

lemma registry_ok_handleErrorReportMessage:
  assumes "registry_ok s" and "handleErrorReportMessage message s = Inr s'"
  shows "registry_ok s'"
proof -
  from assms(2) have "agents s' = agents s" and "agentStates s' = agentStates s"
    by (auto simp add: handleErrorReportMessage_def Let_def split: if_splits)
  then show ?thesis using assms(1) by (rule registry_ok_same)
qed

lemma registry_ok_handleTaskAssignmentMessage:
  "registry_ok s \<Longrightarrow> handleTaskAssignmentMessage message s = Inr s' \<Longrightarrow> registry_ok s'"
  by (auto simp add: handleTaskAssignmentMessage_def Let_def split: if_splits
        dest: registry_ok_assignTask)

lemma registry_ok_handleStatusUpdateMessage:
  assumes "registry_ok s" and "handleStatusUpdateMessage message s = Inr s'"
  shows "registry_ok s'"
proof (cases "map_of (agentStates s) (m_fromAgentId message)")
  case None
  with assms show ?thesis by (simp add: handleStatusUpdateMessage_def)
next
  case (Some agentState)
  with assms(2) have s': "s' = s\<lparr>agentStates := AList.update (m_fromAgentId message)
                   (agentState\<lparr>st_lastActiveAt := clock s\<rparr>) (agentStates s)\<rparr>"
    by (simp add: handleStatusUpdateMessage_def)
  from assms(1) Some have le: "st_tasksSuccessful agentState \<le> st_tasksCompleted agentState"
    by (simp add: registry_ok_def)
  show ?thesis
    by (rule registry_ok_update [OF assms(1) _ _ Some,
          where st' = "agentState\<lparr>st_lastActiveAt := clock s\<rparr>"])
       (simp_all add: s' le)
qed

lemma registry_ok_processMessage:
  assumes "registry_ok s" and "processMessage message s = Inr s'"
  shows "registry_ok s'"
proof (cases "map_of (agentStates s) (m_toAgentId message)")
  case None
  with assms show ?thesis by (simp add: processMessage_def)
next
  case (Some toAgent)
  with assms show ?thesis
    by (cases "m_type message")
       (auto simp add: processMessage_def handleCollaborationRequestMessage_def
          dest: registry_ok_handleTaskAssignmentMessage registry_ok_handleTaskResultMessage
            registry_ok_createCollaborationLinks registry_ok_handleStatusUpdateMessage
            registry_ok_handleErrorReportMessage)
qed

lemma registry_ok_sendMessage:
  assumes "registry_ok s"
  shows "registry_ok (fst (sendMessage messageId message s))"
proof -
  let ?full = "\<lparr>m_id = messageId, m_fromAgentId = mi_fromAgentId message,
                 m_toAgentId = mi_toAgentId message, m_type = mi_type message,
                 m_content = mi_content message, m_timestamp = clock s,
                 m_priority = mi_priority message\<rparr>"
  let ?s1 = "s\<lparr>messageQueue := messageQueue s @ [?full]\<rparr>"
  have s1: "registry_ok ?s1" using assms by (simp add: registry_ok_def)
  show ?thesis
  proof (cases "processMessage ?full ?s1")
    case (Inl e)
    with s1 show ?thesis by (simp add: sendMessage_def Let_def)
  next
    case (Inr s2)
    with s1 have "registry_ok s2" by (rule registry_ok_processMessage)
    with Inr show ?thesis by (simp add: sendMessage_def Let_def)
  qed
qed

lemma registry_ok_processPendingTasks: "registry_ok s \<Longrightarrow> registry_ok (processPendingTasks s)"
  unfolding processPendingTasks_def
  by (rule invariant_foldl [where P = registry_ok])
     (auto simp add: processPendingTask_def intro: registry_ok_caught registry_ok_assignTask
        split: sum.splits js.splits)

lemma registry_ok_processMessageQueue:
  assumes "registry_ok s"
  shows "registry_ok (processMessageQueue s)"
proof -
  have "registry_ok (s\<lparr>messageQueue := []\<rparr>)" using assms by (simp add: registry_ok_def)
  then show ?thesis unfolding processMessageQueue_def
    by (rule invariant_foldl [where P = registry_ok, rotated])
       (auto intro: registry_ok_caught registry_ok_processMessage)
qed

lemma registry_ok_updateAgentStates: "registry_ok s \<Longrightarrow> registry_ok (updateAgentStates strat s)"
  unfolding updateAgentStates_def
  by (rule invariant_foldl [where P = registry_ok])
     (auto simp add: updateAgentState_def Let_def registry_ok_executeTask split: option.splits)

lemma registry_ok_handleTimeouts: "registry_ok s \<Longrightarrow> registry_ok (handleTimeouts s)"
  unfolding handleTimeouts_def
  by (rule invariant_foldl [where P = registry_ok])
     (auto simp add: handleTimeout_def registry_ok_cancelTask split: option.splits)

lemma registry_ok_tasks_update: "registry_ok s \<Longrightarrow> registry_ok (s\<lparr>tasks := ts\<rparr>)"
  by (simp add: registry_ok_def)

lemma registry_ok_queue_update:
  assumes "registry_ok s" and "map_of (agentStates s) aid = Some st"
  shows "registry_ok (s\<lparr>agentStates := AList.update aid (st\<lparr>st_taskQueue := q\<rparr>) (agentStates s)\<rparr>)"
proof -
  from assms have "st_tasksSuccessful st \<le> st_tasksCompleted st" by (simp add: registry_ok_def)
  then show ?thesis
    by (intro registry_ok_update [OF assms(1) _ _ assms(2), where st' = "st\<lparr>st_taskQueue := q\<rparr>"])
       simp_all
qed

lemma registry_ok_moveTask:
  assumes ok: "registry_ok s"
    and h: "map_of (agentStates s) heaviestId = Some heaviestState"
    and l: "map_of (agentStates s) lightestId \<noteq> None"
  shows "registry_ok (moveTask heaviestId lightestId s)"
proof -
  let ?s1 = "s\<lparr>agentStates := AList.update heaviestId
                 (heaviestState\<lparr>st_taskQueue := butlast (st_taskQueue heaviestState)\<rparr>)
                 (agentStates s)\<rparr>"
  have s1: "registry_ok ?s1" using ok h by (rule registry_ok_queue_update)
  from l obtain lightestState where l1: "map_of (agentStates ?s1) lightestId = Some lightestState"
    by (cases "lightestId = heaviestId") (auto simp add: AList.update_conv')
  let ?s2 = "?s1\<lparr>agentStates := AList.update lightestId
                 (lightestState\<lparr>st_taskQueue :=
                    st_taskQueue lightestState @ [last (st_taskQueue heaviestState)]\<rparr>)
                 (agentStates ?s1)\<rparr>"
  have s2: "registry_ok ?s2" using s1 l1 by (rule registry_ok_queue_update)
  show ?thesis
  proof (cases "last (st_taskQueue heaviestState) = []")
    case True
    with s1 h show ?thesis by (simp add: moveTask_def Let_def)
  next
    case False
    show ?thesis
    proof (cases "map_of (tasks s) (last (st_taskQueue heaviestState))")
      case None
      have "moveTask heaviestId lightestId s = ?s2"
        using False None h l1 by (simp add: moveTask_def Let_def)
      with s2 show ?thesis by simp
    next
      case (Some task)
      have "moveTask heaviestId lightestId s =
              ?s2\<lparr>tasks := AList.update (last (st_taskQueue heaviestState))
                               (task\<lparr>t_assignedAgentId := Some lightestId\<rparr>) (tasks ?s2)\<rparr>"
        using False Some h l1 by (simp add: moveTask_def Let_def)
      with registry_ok_tasks_update [OF s2] show ?thesis by simp
    qed
  qed
qed

lemma agentLoads_registered:
  "x \<in> set (agentLoads s) \<Longrightarrow> map_of (agentStates s) (fst x) \<noteq> None"
  by (auto simp add: agentLoads_def map_of_eq_None_iff intro: rev_image_eqI)

lemma sort_key_hd_last_in:
  assumes "xs \<noteq> []"
  shows "hd (sort_key f xs) \<in> set xs" and "last (sort_key f xs) \<in> set xs"
proof -
  from assms have ne: "sort_key f xs \<noteq> []" by (metis length_0_conv length_sort)
  have "hd (sort_key f xs) \<in> set (sort_key f xs)" by (rule hd_in_set [OF ne])
  moreover have "last (sort_key f xs) \<in> set (sort_key f xs)" by (rule last_in_set [OF ne])
  ultimately show "hd (sort_key f xs) \<in> set xs" and "last (sort_key f xs) \<in> set xs" by simp_all
qed

lemma registry_ok_optimizeTaskDistribution:
  assumes ok: "registry_ok s"
  shows "registry_ok (optimizeTaskDistribution s)"
proof (cases "length (agentLoads s) < 2")
  case True
  with ok show ?thesis by (simp add: optimizeTaskDistribution_def)
next
  case False
  then have ne: "agentLoads s \<noteq> []" by auto
  let ?sorted = "sort_key snd (agentLoads s)"
  show ?thesis
  proof (cases "int (snd (last ?sorted)) - int (snd (hd ?sorted)) > 3")
    case True
    have eq: "optimizeTaskDistribution s = moveTask (fst (last ?sorted)) (fst (hd ?sorted)) s"
      unfolding optimizeTaskDistribution_def Let_def using False True by (simp only: if_False if_True)
    from sort_key_hd_last_in [OF ne, of snd]
    have "map_of (agentStates s) (fst (hd ?sorted)) \<noteq> None"
      and "map_of (agentStates s) (fst (last ?sorted)) \<noteq> None"
      by (simp_all add: agentLoads_registered)
    then show ?thesis unfolding eq using ok by (auto intro: registry_ok_moveTask)
  next
    case nogap: False
    have "optimizeTaskDistribution s = s"
      unfolding optimizeTaskDistribution_def Let_def using False nogap by (simp only: if_False)
    with ok show ?thesis by simp
  qed
qed

lemma registry_ok_orchestratorTick: "registry_ok s \<Longrightarrow> registry_ok (orchestratorTick strat s)"
  unfolding orchestratorTick_def
  by (intro registry_ok_optimizeTaskDistribution registry_ok_handleTimeouts
        registry_ok_updateAgentStates registry_ok_processMessageQueue
        registry_ok_processPendingTasks)

lemma registry_ok_step: "registry_ok s \<Longrightarrow> registry_ok (step strat x s)"
proof (cases x)
  case (CreateAgent config)
  assume "registry_ok s"
  with CreateAgent show ?thesis by (auto intro: registry_ok_caught registry_ok_createAgent)
next
  case (RemoveAgent agentId)
  assume "registry_ok s"
  with RemoveAgent show ?thesis by (simp add: registry_ok_removeAgent)
next
  case (CreateTask taskId taskConfig)
  assume "registry_ok s"
  with CreateTask show ?thesis by (simp add: registry_ok_createTask)
next
  case (AssignTask taskId agentId)
  assume "registry_ok s"
  with AssignTask show ?thesis by (auto intro: registry_ok_caught registry_ok_assignTask)
next
  case (ExecuteTask taskId)
  assume "registry_ok s"
  with ExecuteTask show ?thesis by (simp add: registry_ok_executeTask)
next
  case (CancelTask taskId)
  assume "registry_ok s"
  with CancelTask show ?thesis by (simp add: registry_ok_cancelTask)
next
  case (CreateCollaboration agentIds)
  assume "registry_ok s"
  with CreateCollaboration show ?thesis
    by (auto intro: registry_ok_caught registry_ok_createCollaborationLinks)
next
  case (SendMessage messageId message)
  assume "registry_ok s"
  with SendMessage show ?thesis by (simp add: registry_ok_sendMessage)
next
  case Tick
  assume "registry_ok s"
  with Tick show ?thesis by (simp add: registry_ok_orchestratorTick)
next
  case (AdvanceClock d)
  assume "registry_ok s"
  with AdvanceClock show ?thesis by (simp add: registry_ok_def)
qed

text \<open>Every state that the operations build from the empty orchestrator has a well-formed
  registry: the two hypotheses of the theorem on \<open>findBestAgent\<close> hold in each of them.\<close>

lemma registry_ok_run: "registry_ok s \<Longrightarrow> registry_ok (run strat ops s)"
  by (induction ops arbitrary: s) (simp_all add: registry_ok_step)

lemma registry_ok_reachable:
  "distinct (map fst (agentStates (run strat ops init_orch))) \<and>
   (\<forall>(aid, st) \<in> set (agentStates (run strat ops init_orch)). st_status st = Idle \<longrightarrow>
      0 < st_tasksSuccessful st \<longrightarrow> 0 < st_tasksCompleted st)"
proof -
  have "registry_ok (run strat ops init_orch)" using registry_ok_init by (rule registry_ok_run)
  then show ?thesis unfolding registry_ok_def by fastforce
qed

subsection \<open>The queues\<close>

lemma status_rank_pending: "status_rank x = 0 \<longleftrightarrow> x = Val Pending"
proof (cases x)
  case (Val status)
  then show ?thesis by (cases status) simp_all
qed simp_all

lemma status_forward_not_pending:
  assumes "status_forward s s'" and "map_of (tasks s) taskId = Some task" and "t_status task \<noteq> Val Pending"
  shows "\<exists>task'. map_of (tasks s') taskId = Some task' \<and> t_status task' \<noteq> Val Pending"
proof -
  from assms(1,2) obtain task' where t: "map_of (tasks s') taskId = Some task'"
    and le: "status_rank (t_status task) \<le> status_rank (t_status task')"
    unfolding status_forward_def by blast
  from assms(3) have "status_rank (t_status task) \<noteq> 0" by (simp add: status_rank_pending)
  with le have "status_rank (t_status task') \<noteq> 0" by simp
  then have "t_status task' \<noteq> Val Pending" by (simp add: status_rank_pending)
  with t show ?thesis by blast
qed

lemma queues_ok_init: "queues_ok init_orch"
  by (simp add: queues_ok_def init_orch_def)

lemma queues_ok_forward:
  assumes ok: "queues_ok s" and same: "agentStates s' = agentStates s" and fw: "status_forward s s'"
  shows "queues_ok s'"
  unfolding queues_ok_def same
proof (intro conjI allI impI ballI)
  fix aid st
  assume "map_of (agentStates s) aid = Some st"
  with ok show "distinct (st_taskQueue st)" by (simp add: queues_ok_def)
next
  fix aid st taskId
  assume "map_of (agentStates s) aid = Some st" and "taskId \<in> set (st_taskQueue st)"
  with ok obtain task where "map_of (tasks s) taskId = Some task" and "t_status task \<noteq> Val Pending"
    unfolding queues_ok_def by blast
  with fw show "\<exists>task. map_of (tasks s') taskId = Some task \<and> t_status task \<noteq> Val Pending"
    by (rule status_forward_not_pending)
next
  fix a b sa sb
  assume "a \<noteq> b \<and> map_of (agentStates s) a = Some sa \<and> map_of (agentStates s) b = Some sb"
  with ok show "set (st_taskQueue sa) \<inter> set (st_taskQueue sb) = {}"
    unfolding queues_ok_def by blast
qed

text \<open>One agent's state is replaced, and tasks have moved forward. The new queue has no
  repetition, and each of its ids either was in the agent's queue before, or is the id of
  a task that is not pending and was in no queue.\<close>

lemma queues_ok_replace:
  assumes ok: "queues_ok s" and fw: "status_forward s s'"
    and upd: "agentStates s' = AList.update aid st' (agentStates s)"
    and dist: "distinct (st_taskQueue st')"
    and ids: "\<And>taskId. taskId \<in> set (st_taskQueue st') \<Longrightarrow>
               (\<exists>st. map_of (agentStates s) aid = Some st \<and> taskId \<in> set (st_taskQueue st)) \<or>
               ((\<exists>task. map_of (tasks s') taskId = Some task \<and> t_status task \<noteq> Val Pending) \<and>
                (\<forall>b sb. map_of (agentStates s) b = Some sb \<longrightarrow> taskId \<notin> set (st_taskQueue sb)))"
  shows "queues_ok s'"
proof -
  have look: "map_of (agentStates s') b = (if b = aid then Some st' else map_of (agentStates s) b)" for b
    unfolding upd by (simp add: AList.update_conv')
  have old: "\<exists>task. map_of (tasks s') taskId = Some task \<and> t_status task \<noteq> Val Pending"
    if "map_of (agentStates s) b = Some sb" "taskId \<in> set (st_taskQueue sb)" for b sb taskId
  proof -
    from ok that obtain task where "map_of (tasks s) taskId = Some task" and "t_status task \<noteq> Val Pending"
      unfolding queues_ok_def by blast
    with fw show ?thesis by (rule status_forward_not_pending)
  qed
  have disj_old: "set (st_taskQueue sa) \<inter> set (st_taskQueue sb) = {}"
    if "a \<noteq> b" "map_of (agentStates s) a = Some sa" "map_of (agentStates s) b = Some sb" for a b sa sb
    using ok that unfolding queues_ok_def by blast
  have new_other: "taskId \<notin> set (st_taskQueue sb)"
    if "taskId \<in> set (st_taskQueue st')" "b \<noteq> aid" "map_of (agentStates s) b = Some sb" for taskId b sb
  proof -
    from ids [OF that(1)] show ?thesis
    proof
      assume "\<exists>st. map_of (agentStates s) aid = Some st \<and> taskId \<in> set (st_taskQueue st)"
      then obtain st where "map_of (agentStates s) aid = Some st" "taskId \<in> set (st_taskQueue st)"
        by blast
      with disj_old [OF that(2) that(3)] show ?thesis by blast
    next
      assume "(\<exists>task. map_of (tasks s') taskId = Some task \<and> t_status task \<noteq> Val Pending) \<and>
                (\<forall>b sb. map_of (agentStates s) b = Some sb \<longrightarrow> taskId \<notin> set (st_taskQueue sb))"
      with that(3) show ?thesis by blast
    qed
  qed
  show ?thesis
    unfolding queues_ok_def
  proof (intro conjI allI impI ballI)
    fix b sb
    assume "map_of (agentStates s') b = Some sb"
    then show "distinct (st_taskQueue sb)"
      using dist ok unfolding look queues_ok_def by (auto split: if_splits)
  next
    fix b sb taskId
    assume b: "map_of (agentStates s') b = Some sb" and t: "taskId \<in> set (st_taskQueue sb)"
    show "\<exists>task. map_of (tasks s') taskId = Some task \<and> t_status task \<noteq> Val Pending"
    proof (cases "b = aid")
      case True
      with b have "sb = st'" unfolding look by simp
      with t ids [of taskId] old show ?thesis by blast
    next
      case False
      with b have "map_of (agentStates s) b = Some sb" unfolding look by simp
      with t old show ?thesis by blast
    qed
  next
    fix a b sa sb
    assume h: "a \<noteq> b \<and> map_of (agentStates s') a = Some sa \<and> map_of (agentStates s') b = Some sb"
    show "set (st_taskQueue sa) \<inter> set (st_taskQueue sb) = {}"
    proof (cases "a = aid")
      case True
      with h have sa: "sa = st'" and b: "b \<noteq> aid" "map_of (agentStates s) b = Some sb"
        unfolding look by (auto split: if_splits)
      show ?thesis unfolding sa using new_other [OF _ b] by blast
    next
      case False
      note a = False
      show ?thesis
      proof (cases "b = aid")
        case True
        with h a have sb: "sb = st'" and a': "map_of (agentStates s) a = Some sa"
          unfolding look by (auto split: if_splits)
        show ?thesis unfolding sb using new_other [OF _ a a'] by blast
      next
        case False
        with h a have "map_of (agentStates s) a = Some sa" "map_of (agentStates s) b = Some sb" "a \<noteq> b"
          unfolding look by (auto split: if_splits)
        then show ?thesis using disj_old by blast
      qed
    qed
  qed
qed

text \<open>The same agent keeps its queue, or loses ids from it.\<close>

lemma queues_ok_shrink:
  assumes ok: "queues_ok s" and fw: "status_forward s s'"
    and st: "map_of (agentStates s) aid = Some st"
    and upd: "agentStates s' = AList.update aid st' (agentStates s)"
    and dist: "distinct (st_taskQueue st')"
    and sub: "set (st_taskQueue st') \<subseteq> set (st_taskQueue st)"
  shows "queues_ok s'"
  using ok fw upd dist
proof (rule queues_ok_replace)
  fix taskId
  assume "taskId \<in> set (st_taskQueue st')"
  with sub st have "\<exists>st. map_of (agentStates s) aid = Some st \<and> taskId \<in> set (st_taskQueue st)"
    by blast
  then show "(\<exists>st. map_of (agentStates s) aid = Some st \<and> taskId \<in> set (st_taskQueue st)) \<or>
               ((\<exists>task. map_of (tasks s') taskId = Some task \<and> t_status task \<noteq> Val Pending) \<and>
                (\<forall>b sb. map_of (agentStates s) b = Some sb \<longrightarrow> taskId \<notin> set (st_taskQueue sb)))" ..
qed

lemma queues_ok_delete:
  assumes ok: "queues_ok s" and fw: "status_forward s s'"
    and del: "agentStates s' = AList.delete aid (agentStates s)"
  shows "queues_ok s'"
proof -
  have look: "map_of (agentStates s') b = Some sb \<Longrightarrow> map_of (agentStates s) b = Some sb" for b sb
    unfolding del by (simp add: AList.delete_conv' split: if_splits)
  have old: "\<exists>task. map_of (tasks s') taskId = Some task \<and> t_status task \<noteq> Val Pending"
    if "map_of (agentStates s) b = Some sb" "taskId \<in> set (st_taskQueue sb)" for b sb taskId
  proof -
    from ok that obtain task where "map_of (tasks s) taskId = Some task" and "t_status task \<noteq> Val Pending"
      unfolding queues_ok_def by blast
    with fw show ?thesis by (rule status_forward_not_pending)
  qed
  show ?thesis
    unfolding queues_ok_def
  proof (intro conjI allI impI ballI)
    fix b sb
    assume "map_of (agentStates s') b = Some sb"
    then have "map_of (agentStates s) b = Some sb" by (rule look)
    with ok show "distinct (st_taskQueue sb)" unfolding queues_ok_def by blast
  next
    fix b sb taskId
    assume "map_of (agentStates s') b = Some sb" and t: "taskId \<in> set (st_taskQueue sb)"
    then have "map_of (agentStates s) b = Some sb" by (simp add: look)
    with t old show "\<exists>task. map_of (tasks s') taskId = Some task \<and> t_status task \<noteq> Val Pending" by blast
  next
    fix a b sa sb
    assume "a \<noteq> b \<and> map_of (agentStates s') a = Some sa \<and> map_of (agentStates s') b = Some sb"
    then have "a \<noteq> b" "map_of (agentStates s) a = Some sa" "map_of (agentStates s) b = Some sb"
      by (simp_all add: look)
    with ok show "set (st_taskQueue sa) \<inter> set (st_taskQueue sb) = {}"
      unfolding queues_ok_def by blast
  qed
qed

lemma queue_of_ok:
  "queues_ok s \<Longrightarrow> map_of (agentStates s) aid = Some st \<Longrightarrow> distinct (st_taskQueue st)"
  by (simp add: queues_ok_def)

lemma queues_ok_caught:
  "queues_ok s \<Longrightarrow> (\<And>s'. r = Inr s' \<Longrightarrow> queues_ok s') \<Longrightarrow> queues_ok (caught s r)"
  by (cases r) (simp_all add: caught_def)

lemma queues_ok_createAgent:
  assumes ok: "queues_ok s" and c: "createAgent config s = Inr s'"
  shows "queues_ok s'"
proof -
  from c have upd: "agentStates s' =
               AList.update (cfg_id config) (initialState (clock s) config) (agentStates s)"
    by (auto simp add: createAgent_def split: if_splits option.splits)
  from c have "tasks s' = tasks s" by (rule tasks_createAgent)
  then have fw: "status_forward s s'" by (rule status_forward_same)
  show ?thesis
    by (rule queues_ok_replace [OF ok fw upd]) (simp_all add: initialState_def)
qed

lemma queues_ok_cancelTask:
  assumes ok: "queues_ok s"
  shows "queues_ok (fst (cancelTask taskId s))"
proof (cases "map_of (tasks s) taskId")
  case None
  with ok show ?thesis by (simp add: cancelTask_def)
next
  case (Some task)
  note fw = status_forward_cancelTask [of s taskId]
  let ?s1 = "s\<lparr>tasks := AList.update taskId
                (task\<lparr>t_status := Val Cancelled, t_completedAt := Some (clock s)\<rparr>) (tasks s)\<rparr>"
  show ?thesis
  proof (cases "truthy (t_assignedAgentId task) \<and>
                map_of (agentStates s) (the (t_assignedAgentId task)) \<noteq> None")
    case False
    then have "agentStates (fst (cancelTask taskId s)) = agentStates s"
      using Some by (auto simp add: cancelTask_def Let_def)
    with ok show ?thesis using fw by (rule queues_ok_forward)
  next
    case True
    then obtain agentState where
      agent: "map_of (agentStates s) (the (t_assignedAgentId task)) = Some agentState" by auto
    let ?st1 = "agentState\<lparr>st_taskQueue := remove1 taskId (st_taskQueue agentState)\<rparr>"
    let ?st2 = "if st_currentTask ?st1 = Some taskId
                then ?st1\<lparr>st_currentTask := None, st_status := Idle\<rparr> else ?st1"
    have upd: "agentStates (fst (cancelTask taskId s)) =
                 AList.update (the (t_assignedAgentId task)) ?st2 (agentStates s)"
      using Some True agent by (simp add: cancelTask_def Let_def)
    have q: "st_taskQueue ?st2 = remove1 taskId (st_taskQueue agentState)" by simp
    show ?thesis
      by (rule queues_ok_shrink [OF ok fw agent upd])
         (simp_all only: q distinct_remove1 queue_of_ok [OF ok agent] set_remove1_subset)
  qed
qed

lemma queues_ok_removeAgent:
  assumes ok: "queues_ok s"
  shows "queues_ok (fst (removeAgent agentId s))"
proof (cases "map_of (agents s) agentId")
  case None
  with ok show ?thesis by (simp add: removeAgent_def)
next
  case (Some config)
  let ?s1 = "case map_of (agentStates s) agentId of
               None \<Rightarrow> s
             | Some agentState \<Rightarrow>
                 if truthy (st_currentTask agentState)
                 then fst (cancelTask (the (st_currentTask agentState)) s) else s"
  have s1: "queues_ok ?s1"
    using ok by (auto simp add: queues_ok_cancelTask split: option.splits)
  have eq: "fst (removeAgent agentId s) =
          ?s1\<lparr>collaborationGraph := map (\<lambda>(k, collaborators). (k, remove1 agentId collaborators))
                                     (AList.delete agentId (collaborationGraph ?s1)),
               agents := AList.delete agentId (agents ?s1),
               agentStates := AList.delete agentId (agentStates ?s1)\<rparr>"
    using Some by (simp add: removeAgent_def Let_def)
  show ?thesis unfolding eq
    by (rule queues_ok_delete [OF s1, where aid = agentId]) (simp_all add: status_forward_same)
qed

lemma queues_ok_createTask:
  assumes "queues_ok s" and "map_of (tasks s) taskId = None"
  shows "queues_ok (fst (createTask taskId taskConfig s))"
  using assms(1)
  by (rule queues_ok_forward)
     (simp_all add: createTask_def Let_def status_forward_createTask [OF assms(2), unfolded createTask_def Let_def, simplified])

lemma queues_ok_assignTask:
  assumes ok: "queues_ok s" and a: "assignTask taskId agentId s = Inr s'"
  shows "queues_ok s'"
proof -
  from a obtain task where task: "map_of (tasks s) taskId = Some task"
    by (auto simp add: assignTask_def split: option.splits)
  from a task have pending: "t_status task = Val Pending"
    by (auto simp add: assignTask_def split: if_splits)
  from a obtain aid where aid: "resolveAgent task agentId s = Inr aid"
    and s': "s' = s\<lparr>tasks := AList.update taskId
                         (task\<lparr>t_assignedAgentId := Some aid, t_status := Val Assigned\<rparr>) (tasks s),
                       agentStates := AList.update aid
                         ((the (map_of (agentStates s) aid))
                            \<lparr>st_taskQueue := st_taskQueue (the (map_of (agentStates s) aid)) @ [taskId]\<rparr>)
                         (agentStates s)\<rparr>"
    unfolding assignTask_pending [OF task pending]
    by (auto split: sum.splits if_splits)
  from resolveAgent_registered [OF aid] obtain st where st: "map_of (agentStates s) aid = Some st"
    by auto
  have fw: "status_forward s s'" using a by (rule status_forward_assignTask)
  have upd: "agentStates s' =
      AList.update aid (st\<lparr>st_taskQueue := st_taskQueue st @ [taskId]\<rparr>) (agentStates s)"
    by (simp add: s' st)
  have unqueued: "taskId \<notin> set (st_taskQueue sb)" if "map_of (agentStates s) b = Some sb" for b sb
  proof
    assume "taskId \<in> set (st_taskQueue sb)"
    with ok that obtain task' where "map_of (tasks s) taskId = Some task'" "t_status task' \<noteq> Val Pending"
      unfolding queues_ok_def by blast
    with task pending show False by simp
  qed
  have now: "\<exists>task. map_of (tasks s') taskId = Some task \<and> t_status task \<noteq> Val Pending"
    by (simp add: s' map_of_update_same)
  show ?thesis
  proof (rule queues_ok_replace [OF ok fw upd])
    show "distinct (st_taskQueue (st\<lparr>st_taskQueue := st_taskQueue st @ [taskId]\<rparr>))"
      using queue_of_ok [OF ok st] unqueued [OF st] by simp
  next
    fix t
    assume "t \<in> set (st_taskQueue (st\<lparr>st_taskQueue := st_taskQueue st @ [taskId]\<rparr>))"
    then have "t \<in> set (st_taskQueue st) \<or> t = taskId" by auto
    then show "(\<exists>st. map_of (agentStates s) aid = Some st \<and> t \<in> set (st_taskQueue st)) \<or>
               ((\<exists>task. map_of (tasks s') t = Some task \<and> t_status task \<noteq> Val Pending) \<and>
                (\<forall>b sb. map_of (agentStates s) b = Some sb \<longrightarrow> t \<notin> set (st_taskQueue sb)))"
      using st now unqueued by blast
  qed
qed

lemma queues_ok_executeTask:
  assumes ok: "queues_ok s"
  shows "queues_ok (fst (executeTask strat taskId s))"
proof (cases "map_of (tasks s) taskId")
  case None
  with ok show ?thesis by (simp add: executeTask_def)
next
  case (Some task)
  show ?thesis
  proof (cases "truthy (t_assignedAgentId task)")
    case False
    with Some ok show ?thesis by (simp add: executeTask_def)
  next
    case True
    then obtain aid where aid: "t_assignedAgentId task = Some aid" "aid \<noteq> []"
      by (cases "t_assignedAgentId task") auto
    show ?thesis
    proof (cases "map_of (agentStates s) aid")
      case None
      with Some aid ok show ?thesis by (simp add: executeTask_def)
    next
      case agent: (Some agentState)
      let ?task1 = "task\<lparr>t_status := Val In_progress, t_startedAt := Some (clock s)\<rparr>"
      let ?agentState1 = "agentState\<lparr>st_status := Busy, st_currentTask := Some taskId\<rparr>"
      let ?s1 = "s\<lparr>tasks := AList.update taskId ?task1 (tasks s),
                   agentStates := AList.update aid ?agentState1 (agentStates s)\<rparr>"
      obtain d outcome where o: "executeTaskByType strat ?task1 s = (d, outcome)"
        by (cases "executeTaskByType strat ?task1 s")
      note unfold = executeTask_assigned [OF Some aid agent o]
      have fw1: "status_forward s ?s1"
        by (rule status_forward_update [where k = taskId and t' = ?task1]) simp_all
      have s1: "queues_ok ?s1"
        by (rule queues_ok_shrink [OF ok fw1 agent, where st' = ?agentState1])
           (simp_all add: queue_of_ok [OF ok agent])
      have agent1: "map_of (agentStates ?s1) aid = Some ?agentState1"
        by (simp add: map_of_update_same)
      have d1: "distinct (remove1 taskId (st_taskQueue agentState))"
        using queue_of_ok [OF ok agent] by simp
      show ?thesis
      proof (cases outcome)
        case (Inl err)
        let ?s2 = "executeTask_failure taskId aid ?task1 ?agentState1 (clock s + d) err ?s1"
        have fw2: "status_forward ?s1 ?s2"
          by (rule status_forward_update [where k = taskId and
                t' = "?task1\<lparr>t_status := Val Failed, t_error := Some (error_message err),
                              t_completedAt := Some (clock s + d)\<rparr>"])
             (simp_all add: tasks_executeTask_failure)
        have "queues_ok ?s2"
          by (rule queues_ok_shrink [OF s1 fw2 agent1,
                where st' = "?agentState1\<lparr>st_status := Idle, st_currentTask := None,
                     st_tasksCompleted := Suc (st_tasksCompleted ?agentState1),
                     st_taskQueue := remove1 taskId (st_taskQueue ?agentState1)\<rparr>"])
             (simp_all add: executeTask_failure_def Let_def d1 set_remove1_subset)
        then show ?thesis unfolding unfold Let_def Inl by simp
      next
        case (Inr result)
        let ?s2 = "executeTask_success taskId aid ?task1 ?agentState1 (clock s + d) result ?s1"
        have fw2: "status_forward ?s1 ?s2"
          by (rule status_forward_update [where k = taskId and
                t' = "?task1\<lparr>t_status := Val Completed, t_completedAt := Some (clock s + d),
                              t_result := Some result,
                              t_actualDuration := Some (clock s + d - the (t_startedAt ?task1))\<rparr>"])
             (simp_all add: tasks_executeTask_success)
        have "queues_ok ?s2"
          by (rule queues_ok_shrink [OF s1 fw2 agent1,
                where st' = "the (map_of (agentStates ?s2) aid)"])
             (simp_all add: executeTask_success_def Let_def d1 set_remove1_subset map_of_update_same)
        then show ?thesis unfolding unfold Let_def Inr by simp
      qed
    qed
  qed
qed

lemma queues_ok_createCollaborationLinks:
  assumes "queues_ok s" and "createCollaborationLinks agentIds s = Inr s'"
  shows "queues_ok s'"
proof -
  from assms(2) have same: "agentStates s' = agentStates s" and "tasks s' = tasks s"
    by (auto simp add: createCollaborationLinks_def split: option.splits)
  then have "status_forward s s'" by (intro status_forward_same)
  with assms(1) same show ?thesis by (rule queues_ok_forward)
qed

lemma queues_ok_handleTaskResultMessage:
  assumes "queues_ok s" and h: "handleTaskResultMessage message s = Inr s'"
  shows "queues_ok s'"
proof -
  from h have "agentStates s' = agentStates s"
    by (auto simp add: handleTaskResultMessage_def Let_def split: if_splits)
  with assms(1) show ?thesis
    using status_forward_handleTaskResultMessage [OF h] by (rule queues_ok_forward)
qed

lemma queues_ok_handleErrorReportMessage:
  assumes "queues_ok s" and h: "handleErrorReportMessage message s = Inr s'"
  shows "queues_ok s'"
proof -
  from h have "agentStates s' = agentStates s"
    by (auto simp add: handleErrorReportMessage_def Let_def split: if_splits)
  with assms(1) show ?thesis
    using status_forward_handleErrorReportMessage [OF h] by (rule queues_ok_forward)
qed

lemma queues_ok_handleTaskAssignmentMessage:
  "queues_ok s \<Longrightarrow> handleTaskAssignmentMessage message s = Inr s' \<Longrightarrow> queues_ok s'"
  by (auto simp add: handleTaskAssignmentMessage_def Let_def split: if_splits
        dest: queues_ok_assignTask)

lemma queues_ok_handleStatusUpdateMessage:
  assumes ok: "queues_ok s" and h: "handleStatusUpdateMessage message s = Inr s'"
  shows "queues_ok s'"
proof (cases "map_of (agentStates s) (m_fromAgentId message)")
  case None
  with assms show ?thesis by (simp add: handleStatusUpdateMessage_def)
next
  case (Some agentState)
  with h have s': "s' = s\<lparr>agentStates := AList.update (m_fromAgentId message)
                   (agentState\<lparr>st_lastActiveAt := clock s\<rparr>) (agentStates s)\<rparr>"
    by (simp add: handleStatusUpdateMessage_def)
  have fw: "status_forward s s'" using h by (rule status_forward_handleStatusUpdateMessage)
  show ?thesis
    by (rule queues_ok_shrink [OF ok fw Some, where st' = "agentState\<lparr>st_lastActiveAt := clock s\<rparr>"])
       (simp_all add: s' queue_of_ok [OF ok Some])
qed

lemma queues_ok_processMessage:
  assumes "queues_ok s" and "processMessage message s = Inr s'"
  shows "queues_ok s'"
proof (cases "map_of (agentStates s) (m_toAgentId message)")
  case None
  with assms show ?thesis by (simp add: processMessage_def)
next
  case (Some toAgent)
  with assms show ?thesis
    by (cases "m_type message")
       (auto simp add: processMessage_def handleCollaborationRequestMessage_def
          dest: queues_ok_handleTaskAssignmentMessage queues_ok_handleTaskResultMessage
            queues_ok_createCollaborationLinks queues_ok_handleStatusUpdateMessage
            queues_ok_handleErrorReportMessage)
qed

lemma queues_ok_sendMessage:
  assumes "queues_ok s"
  shows "queues_ok (fst (sendMessage messageId message s))"
proof -
  let ?full = "\<lparr>m_id = messageId, m_fromAgentId = mi_fromAgentId message,
                 m_toAgentId = mi_toAgentId message, m_type = mi_type message,
                 m_content = mi_content message, m_timestamp = clock s,
                 m_priority = mi_priority message\<rparr>"
  let ?s1 = "s\<lparr>messageQueue := messageQueue s @ [?full]\<rparr>"
  have s1: "queues_ok ?s1" using assms by (simp add: queues_ok_def)
  show ?thesis
  proof (cases "processMessage ?full ?s1")
    case (Inl e)
    with s1 show ?thesis by (simp add: sendMessage_def Let_def)
  next
    case (Inr s2)
    with s1 have "queues_ok s2" by (rule queues_ok_processMessage)
    with Inr show ?thesis by (simp add: sendMessage_def Let_def)
  qed
qed

lemma queues_ok_processPendingTasks: "queues_ok s \<Longrightarrow> queues_ok (processPendingTasks s)"
  unfolding processPendingTasks_def
  by (rule invariant_foldl [where P = queues_ok])
     (auto simp add: processPendingTask_def intro: queues_ok_caught queues_ok_assignTask
        split: sum.splits js.splits)

lemma queues_ok_processMessageQueue:
  assumes "queues_ok s"
  shows "queues_ok (processMessageQueue s)"
proof -
  have "queues_ok (s\<lparr>messageQueue := []\<rparr>)" using assms by (simp add: queues_ok_def)
  then show ?thesis unfolding processMessageQueue_def
    by (rule invariant_foldl [where P = queues_ok, rotated])
       (auto intro: queues_ok_caught queues_ok_processMessage)
qed

lemma queues_ok_updateAgentStates: "queues_ok s \<Longrightarrow> queues_ok (updateAgentStates strat s)"
  unfolding updateAgentStates_def
  by (rule invariant_foldl [where P = queues_ok])
     (auto simp add: updateAgentState_def Let_def queues_ok_executeTask split: option.splits)

lemma queues_ok_handleTimeouts: "queues_ok s \<Longrightarrow> queues_ok (handleTimeouts s)"
  unfolding handleTimeouts_def
  by (rule invariant_foldl [where P = queues_ok])
     (auto simp add: handleTimeout_def queues_ok_cancelTask split: option.splits)

lemma queues_ok_moveTask:
  assumes ok: "queues_ok s"
    and h: "map_of (agentStates s) heaviestId = Some heaviestState"
    and l: "map_of (agentStates s) lightestId = Some lightestState"
    and ne: "heaviestId \<noteq> lightestId"
    and q: "st_taskQueue heaviestState \<noteq> []"
  shows "queues_ok (moveTask heaviestId lightestId s)"
proof -
  let ?q = "st_taskQueue heaviestState"
  let ?t = "last ?q"
  let ?s1 = "s\<lparr>agentStates := AList.update heaviestId
                 (heaviestState\<lparr>st_taskQueue := butlast ?q\<rparr>) (agentStates s)\<rparr>"
  have dq: "distinct ?q" using ok h by (rule queue_of_ok)
  have fw1: "status_forward s ?s1" by (rule status_forward_same) simp
  have s1: "queues_ok ?s1"
    by (rule queues_ok_shrink [OF ok fw1 h, where st' = "heaviestState\<lparr>st_taskQueue := butlast ?q\<rparr>"])
       (simp_all add: dq distinct_butlast in_set_butlastD subsetI)
  have l1: "map_of (agentStates ?s1) lightestId = Some lightestState"
    using l ne by (simp add: AList.update_conv')
  let ?s2 = "?s1\<lparr>agentStates := AList.update lightestId
                 (lightestState\<lparr>st_taskQueue := st_taskQueue lightestState @ [?t]\<rparr>)
                 (agentStates ?s1)\<rparr>"
  have tq: "?t \<in> set ?q" using q by simp
  have t_task: "\<exists>task. map_of (tasks s) ?t = Some task \<and> t_status task \<noteq> Val Pending"
    using ok h tq unfolding queues_ok_def by blast
  have t_butlast: "?t \<notin> set (butlast ?q)"
  proof -
    from q have "?q = butlast ?q @ [?t]" by simp
    with dq have "distinct (butlast ?q @ [?t])" by simp
    then show ?thesis by simp
  qed
  have unqueued: "?t \<notin> set (st_taskQueue sb)" if b: "map_of (agentStates ?s1) b = Some sb" for b sb
  proof (cases "b = heaviestId")
    case True
    with b have "sb = heaviestState\<lparr>st_taskQueue := butlast ?q\<rparr>" by (simp add: AList.update_conv')
    with t_butlast show ?thesis by simp
  next
    case False
    with b have "map_of (agentStates s) b = Some sb" by (simp add: AList.update_conv')
    with ok h False have "set (st_taskQueue sb) \<inter> set ?q = {}" unfolding queues_ok_def by blast
    with tq show ?thesis by blast
  qed
  have fw2: "status_forward ?s1 ?s2" by (rule status_forward_same) simp
  have s2: "queues_ok ?s2"
  proof (rule queues_ok_replace [OF s1 fw2, where aid = lightestId and
            st' = "lightestState\<lparr>st_taskQueue := st_taskQueue lightestState @ [?t]\<rparr>"])
    show "agentStates ?s2 = AList.update lightestId
            (lightestState\<lparr>st_taskQueue := st_taskQueue lightestState @ [?t]\<rparr>) (agentStates ?s1)"
      by simp
  next
    show "distinct (st_taskQueue (lightestState\<lparr>st_taskQueue := st_taskQueue lightestState @ [?t]\<rparr>))"
      using queue_of_ok [OF s1 l1] unqueued [OF l1] by simp
  next
    fix t
    assume "t \<in> set (st_taskQueue (lightestState\<lparr>st_taskQueue := st_taskQueue lightestState @ [?t]\<rparr>))"
    then have "t \<in> set (st_taskQueue lightestState) \<or> t = ?t" by auto
    moreover have "\<exists>task. map_of (tasks ?s2) ?t = Some task \<and> t_status task \<noteq> Val Pending"
      using t_task by simp
    ultimately show "(\<exists>st. map_of (agentStates ?s1) lightestId = Some st \<and> t \<in> set (st_taskQueue st)) \<or>
               ((\<exists>task. map_of (tasks ?s2) t = Some task \<and> t_status task \<noteq> Val Pending) \<and>
                (\<forall>b sb. map_of (agentStates ?s1) b = Some sb \<longrightarrow> t \<notin> set (st_taskQueue sb)))"
      using l1 unqueued by blast
  qed
  show ?thesis
  proof (cases "?t = []")
    case True
    with s1 h show ?thesis by (simp add: moveTask_def Let_def)
  next
    case False
    show ?thesis
    proof (cases "map_of (tasks s) ?t")
      case None
      have "moveTask heaviestId lightestId s = ?s2"
        using False None h l1 by (simp add: moveTask_def Let_def)
      with s2 show ?thesis by simp
    next
      case (Some task)
      let ?s3 = "?s2\<lparr>tasks := AList.update ?t (task\<lparr>t_assignedAgentId := Some lightestId\<rparr>) (tasks ?s2)\<rparr>"
      have eq: "moveTask heaviestId lightestId s = ?s3"
        using False Some h l1 by (simp add: moveTask_def Let_def)
      have fw3: "status_forward ?s2 ?s3"
        by (rule status_forward_update [where k = ?t and
              t' = "task\<lparr>t_assignedAgentId := Some lightestId\<rparr>"])
           (simp_all add: Some)
      have "queues_ok ?s3" using s2 _ fw3 by (rule queues_ok_forward) simp
      with eq show ?thesis by simp
    qed
  qed
qed

lemma agentLoads_load:
  assumes "distinct (map fst (agentStates s))" and "x \<in> set (agentLoads s)"
  shows "\<exists>st. map_of (agentStates s) (fst x) = Some st \<and> snd x = length (st_taskQueue st)"
proof -
  from assms(2) obtain aid st where "(aid, st) \<in> set (agentStates s)"
    and x: "x = (aid, length (st_taskQueue st))"
    by (auto simp add: agentLoads_def)
  with assms(1) have "map_of (agentStates s) aid = Some st" by simp
  with x show ?thesis by simp
qed

lemma queues_ok_optimizeTaskDistribution:
  assumes reg: "registry_ok s" and ok: "queues_ok s"
  shows "queues_ok (optimizeTaskDistribution s)"
proof (cases "length (agentLoads s) < 2")
  case True
  with ok show ?thesis by (simp add: optimizeTaskDistribution_def)
next
  case False
  then have ne: "agentLoads s \<noteq> []" by auto
  let ?sorted = "sort_key snd (agentLoads s)"
  show ?thesis
  proof (cases "int (snd (last ?sorted)) - int (snd (hd ?sorted)) > 3")
    case True
    have eq: "optimizeTaskDistribution s = moveTask (fst (last ?sorted)) (fst (hd ?sorted)) s"
      unfolding optimizeTaskDistribution_def Let_def using False True by (simp only: if_False if_True)
    from reg have keys: "distinct (map fst (agentStates s))" by (simp add: registry_ok_def)
    from sort_key_hd_last_in [OF ne, of snd]
    have "hd ?sorted \<in> set (agentLoads s)" and "last ?sorted \<in> set (agentLoads s)" by simp_all
    with agentLoads_load [OF keys] obtain hs ls where
      h: "map_of (agentStates s) (fst (last ?sorted)) = Some hs"
        "snd (last ?sorted) = length (st_taskQueue hs)" and
      l: "map_of (agentStates s) (fst (hd ?sorted)) = Some ls"
        "snd (hd ?sorted) = length (st_taskQueue ls)"
      by blast
    from True h(2) have q: "st_taskQueue hs \<noteq> []" by auto
    have differ: "fst (last ?sorted) \<noteq> fst (hd ?sorted)"
    proof
      assume "fst (last ?sorted) = fst (hd ?sorted)"
      with h l have "snd (last ?sorted) = snd (hd ?sorted)" by simp
      with True show False by simp
    qed
    show ?thesis unfolding eq using ok h(1) l(1) differ q by (rule queues_ok_moveTask)
  next
    case nogap: False
    have "optimizeTaskDistribution s = s"
      unfolding optimizeTaskDistribution_def Let_def using False nogap by (simp only: if_False)
    with ok show ?thesis by simp
  qed
qed

lemma queues_ok_orchestratorTick:
  assumes "registry_ok s" and "queues_ok s"
  shows "queues_ok (orchestratorTick strat s)"
  unfolding orchestratorTick_def
proof (rule queues_ok_optimizeTaskDistribution)
  show "registry_ok (handleTimeouts (updateAgentStates strat
          (processMessageQueue (processPendingTasks s))))"
    using assms(1)
    by (intro registry_ok_handleTimeouts registry_ok_updateAgentStates
          registry_ok_processMessageQueue registry_ok_processPendingTasks)
  show "queues_ok (handleTimeouts (updateAgentStates strat
          (processMessageQueue (processPendingTasks s))))"
    using assms(2)
    by (intro queues_ok_handleTimeouts queues_ok_updateAgentStates
          queues_ok_processMessageQueue queues_ok_processPendingTasks)
qed

lemma queues_ok_step:
  assumes reg: "registry_ok s" and ok: "queues_ok s" and fresh: "fresh_id x s"
  shows "queues_ok (step strat x s)"
proof (cases x)
  case (CreateAgent config)
  with ok show ?thesis by (auto intro: queues_ok_caught queues_ok_createAgent)
next
  case (RemoveAgent agentId)
  with ok show ?thesis by (simp add: queues_ok_removeAgent)
next
  case (CreateTask taskId taskConfig)
  with ok fresh show ?thesis by (simp add: queues_ok_createTask)
next
  case (AssignTask taskId agentId)
  with ok show ?thesis by (auto intro: queues_ok_caught queues_ok_assignTask)
next
  case (ExecuteTask taskId)
  with ok show ?thesis by (simp add: queues_ok_executeTask)
next
  case (CancelTask taskId)
  with ok show ?thesis by (simp add: queues_ok_cancelTask)
next
  case (CreateCollaboration agentIds)
  with ok show ?thesis by (auto intro: queues_ok_caught queues_ok_createCollaborationLinks)
next
  case (SendMessage messageId message)
  with ok show ?thesis by (simp add: queues_ok_sendMessage)
next
  case Tick
  with reg ok show ?thesis by (simp add: queues_ok_orchestratorTick)
next
  case (AdvanceClock d)
  with ok show ?thesis by (simp add: queues_ok_def)
qed

text \<open>In every state that the operations build from the empty orchestrator with fresh
  task ids, no queue repeats a task: there \<open>executeTask\<close> removes the task from the
  agent's queue altogether.\<close>

lemma queues_ok_run:
  "registry_ok s \<Longrightarrow> queues_ok s \<Longrightarrow> fresh_run strat ops s \<Longrightarrow> queues_ok (run strat ops s)"
  by (induction ops arbitrary: s) (simp_all add: registry_ok_step queues_ok_step)

lemma queues_distinct_reachable:
  assumes "fresh_run strat ops init_orch"
    and "map_of (agentStates (run strat ops init_orch)) aid = Some st"
  shows "distinct (st_taskQueue st)"
proof -
  have "queues_ok (run strat ops init_orch)"
    using registry_ok_init queues_ok_init assms(1) by (rule queues_ok_run)
  then show ?thesis using assms(2) by (rule queue_of_ok)
qed

section \<open>Properties of the resource manager\<close>

subsection \<open>Paths\<close>
























subsection \<open>The names of the files\<close>














lemma checkpoint_name_not_quick: "''checkpoint_'' @ a \<noteq> ''quick_'' @ b"
  by simp

subsection \<open>Checkpoints\<close>

lemma stringify_Plain_first:
  "stringify ((k, Plain j) # ps) = Some js \<Longrightarrow> map_of js k = Some j"
  by (auto split: option.splits)

lemma stringify_Plain_skip:
  "stringify ((k', Plain j') # ps) = Some js \<Longrightarrow> k \<noteq> k' \<Longrightarrow>
   \<exists>js'. stringify ps = Some js' \<and> map_of js k = map_of js' k"
  by (auto split: option.splits)































text \<open>
  Nor is a checkpoint write for another task id always harmless. \<open>path.join\<close> normalises,
  so the task ids \<open>a/../b\<close> and \<open>c/../b\<close> share the pointer file \<open>b.json\<close>: after a
  save for the first and a save for the second, the load for the first returns the
  checkpoint of the second.
\<close>

lemma checkpoint_shared_pointer_file:
  "path_join ''/srv/.checkpoints'' ''quick_a/../b.json'' = ''/srv/.checkpoints/b.json'' \<and>
   path_join ''/srv/.checkpoints'' ''quick_c/../b.json'' = ''/srv/.checkpoints/b.json'' \<and>
   jfield (the (loadTaskCheckpoint ''a/../b''
      (rm_run [SaveTaskCheckpoint example_env
                 (example_checkpoint\<lparr>cp_taskId := ''a/../b'', cp_status := ''one''\<rparr>),
               SaveTaskCheckpoint (example_env\<lparr>env_now := 2000\<rparr>)
                 (example_checkpoint\<lparr>cp_taskId := ''c/../b'', cp_status := ''two''\<rparr>)]
         (new_ResourceManager ''/srv'' empty_fs ())))) ''status'' = Some (JStr ''two'')"
  by code_simp

text \<open>And a cleanup between the save and the load removes a checkpoint that is older
  than its age limit: the load returns \<open>null\<close>.\<close>

lemma cleanup_removes_checkpoint:
  "loadTaskCheckpoint ''t1''
      (rm_run [SaveTaskCheckpoint example_env example_checkpoint,
               CleanupOldCheckpoints (example_env\<lparr>env_now := 5000\<rparr>) 3000
                 (Some [''checkpoint_t1_1000.json'', ''quick_t1.json''])]
         (new_ResourceManager ''/srv'' empty_fs ())) = None"
  by code_simp

subsection \<open>Emergency dumps\<close>

text \<open>
  C8 on the code. On a file system on which every write fails, the JSON dump fails,
  the \<open>catch\<close> block's \<open>writeFile\<close> of the plain-text record fails too, and that
  failure reaches the caller of \<open>emergencyDump\<close>.
\<close>

theorem emergencyDump_raises_on_readonly_fs:
  "snd (emergencyDump example_env ''uncaught-exception'' Undefined
          (new_ResourceManager ''/srv'' readonly_fs ()))
     = Inl (WriteFailed ''/srv/.emergency-dumps/basic_emergency_1000_abc.txt'')"
  by code_simp

text \<open>What does hold: writes never change which paths are unwritable, and when the path of
  the plain-text record is writable \<open>emergencyDump\<close> returns a dump id.\<close>

lemma emergencyDump_try_unwritable:
  "unwritable (fst (emergencyDump_try env dumpId reason additionalData s)) = unwritable (fs s)"
  by (auto simp add: emergencyDump_try_def Let_def writeJson_def copy_def put_def
        split: sum.splits option.splits)

lemma emergencyDump_returns_when_fallback_writable:
  assumes "\<not> unwritable (fs s) (path_join (emergencyDumpDirectory s)
             (''basic_'' @ (''emergency_'' @ string_of_nat (env_now env) @ ''_'' @ random_suffix (env_random env))
                @ ''.txt''))"
  shows "snd (emergencyDump env reason additionalData s)
           = Inr (''emergency_'' @ string_of_nat (env_now env) @ ''_'' @ random_suffix (env_random env))"
proof -
  let ?dumpId = "''emergency_'' @ string_of_nat (env_now env) @ ''_'' @ random_suffix (env_random env)"
  obtain fs1 r where t: "emergencyDump_try env ?dumpId reason additionalData s = (fs1, r)"
    by (cases "emergencyDump_try env ?dumpId reason additionalData s")
  with emergencyDump_try_unwritable [of env ?dumpId reason additionalData s]
  have "unwritable fs1 = unwritable (fs s)" by simp
  with assms t show ?thesis
    by (cases r) (simp_all add: emergencyDump_def Let_def writeFile_def)
qed

subsection \<open>Resume callbacks\<close>

lemma emergencyDump_try_without_resume:
  "emergencyDump_try env dumpId reason additionalData (without_resume s)
     = emergencyDump_try env dumpId reason additionalData s"
  by (simp add: emergencyDump_try_def without_resume_def Let_def split: sum.splits)

lemma emergencyDump_without_resume:
  "emergencyDump env reason additionalData (without_resume s)
     = (without_resume (fst (emergencyDump env reason additionalData s)),
        snd (emergencyDump env reason additionalData s))"
  unfolding emergencyDump_def Let_def emergencyDump_try_without_resume
  by (auto simp add: without_resume_def split: prod.splits option.splits sum.splits)

lemma handleCriticalRAMUsage_without_resume:
  "handleCriticalRAMUsage env metrics (without_resume s)
     = (without_resume (fst (handleCriticalRAMUsage env metrics s)),
        snd (handleCriticalRAMUsage env metrics s))"
  unfolding handleCriticalRAMUsage_def emergencyDump_without_resume
  by (cases "emergencyDump env ''critical-ram-usage''
               (Plain (JObj [(''metrics'', metrics_json metrics)])) s")
     (auto simp add: without_resume_def split: sum.splits)

lemma handleWarningRAMUsage_without_resume:
  "handleWarningRAMUsage metrics (without_resume s) = without_resume (handleWarningRAMUsage metrics s)"
  by (simp add: handleWarningRAMUsage_def without_resume_def)

lemma thresholds_without_resume:
  "ramCritical (without_resume s) = ramCritical s" "ramWarning (without_resume s) = ramWarning s"
  "vramCritical (without_resume s) = vramCritical s" "vramWarning (without_resume s) = vramWarning s"
  "isMonitoring (without_resume s) = isMonitoring s"
  by (simp_all add: without_resume_def)

lemma handleCriticalRAMUsage_thresholds:
  "vramCritical (fst (handleCriticalRAMUsage env metrics s)) = vramCritical s"
  "vramWarning (fst (handleCriticalRAMUsage env metrics s)) = vramWarning s"
  by (auto simp add: handleCriticalRAMUsage_def emergencyDump_def Let_def
        split: prod.splits option.splits sum.splits)

lemma checkResourcePressure_without_resume:
  "checkResourcePressure env (without_resume s)
     = (without_resume (fst (checkResourcePressure env s)), snd (checkResourcePressure env s))"
proof -
  let ?m = "getResourceMetrics env"
  consider (critical) "reaches (ramUtilization ?m) (ramCritical s)"
    | (warning) "\<not> reaches (ramUtilization ?m) (ramCritical s)"
        "reaches (ramUtilization ?m) (ramWarning s)"
    | (calm) "\<not> reaches (ramUtilization ?m) (ramCritical s)"
        "\<not> reaches (ramUtilization ?m) (ramWarning s)"
    by blast
  then show ?thesis
  proof cases
    case critical
    obtain s1 r where h: "handleCriticalRAMUsage env ?m s = (s1, r)"
      by (cases "handleCriticalRAMUsage env ?m s")
    with handleCriticalRAMUsage_without_resume [of env ?m s]
    have h': "handleCriticalRAMUsage env ?m (without_resume s) = (without_resume s1, r)" by simp
    show ?thesis using critical h h'
      by (cases r)
         (simp_all add: checkResourcePressure_def Let_def thresholds_without_resume
            handleCriticalVRAMUsage_def handleWarningVRAMUsage_def)
  next
    case warning
    then show ?thesis
      by (simp add: checkResourcePressure_def Let_def thresholds_without_resume
            handleWarningRAMUsage_without_resume
            handleCriticalVRAMUsage_def handleWarningVRAMUsage_def)
  next
    case calm
    then show ?thesis
      by (simp add: checkResourcePressure_def Let_def thresholds_without_resume
            handleCriticalVRAMUsage_def handleWarningVRAMUsage_def)
  qed
qed

lemma saveTaskCheckpoint_without_resume:
  "fst (saveTaskCheckpoint env c (without_resume s)) = without_resume (fst (saveTaskCheckpoint env c s))"
  by (auto simp add: saveTaskCheckpoint_def Let_def without_resume_def split: sum.splits)

lemma cleanupOldCheckpoints_without_resume:
  "fst (cleanupOldCheckpoints env maxAge listing (without_resume s))
     = without_resume (fst (cleanupOldCheckpoints env maxAge listing s))"
  by (auto simp add: cleanupOldCheckpoints_def without_resume_def split: option.splits prod.splits)

lemma rm_step_without_resume:
  "\<not> is_OnResume x \<Longrightarrow> rm_step x (without_resume s) = without_resume (rm_step x s)"
proof (cases x)
  case (OnEmergency callback)
  then show ?thesis by (simp add: onEmergency_def without_resume_def)
next
  case (OnPause callback)
  then show ?thesis by (simp add: onPause_def without_resume_def)
next
  case (OnResume callback)
  assume "\<not> is_OnResume x"
  with OnResume show ?thesis by simp
next
  case (SetThresholds thresholds)
  then show ?thesis by (simp add: setThresholds_def without_resume_def)
next
  case StartMonitoring
  then show ?thesis by (simp add: startMonitoring_def without_resume_def)
next
  case StopMonitoring
  then show ?thesis by (simp add: stopMonitoring_def without_resume_def)
next
  case (MonitoringSample env)
  then show ?thesis
    by (simp add: checkResourcePressure_without_resume thresholds_without_resume)
next
  case (CheckResourcePressure env)
  then show ?thesis by (simp add: checkResourcePressure_without_resume)
next
  case (HandleCriticalRAMUsage env)
  then show ?thesis by (simp add: handleCriticalRAMUsage_without_resume)
next
  case (HandleWarningRAMUsage env)
  then show ?thesis by (simp add: handleWarningRAMUsage_without_resume)
next
  case (HandleCriticalVRAMUsage env)
  then show ?thesis by (simp add: handleCriticalVRAMUsage_def)
next
  case (HandleWarningVRAMUsage env)
  then show ?thesis by (simp add: handleWarningVRAMUsage_def)
next
  case (SaveTaskCheckpoint env c)
  then show ?thesis by (simp add: saveTaskCheckpoint_without_resume)
next
  case (EmergencyDump env reason additionalData)
  then show ?thesis by (simp add: emergencyDump_without_resume)
next
  case (CleanupOldCheckpoints env maxAge listing)
  then show ?thesis by (simp add: cleanupOldCheckpoints_without_resume)
qed

lemma onResume_without_resume: "without_resume (onResume callback s) = without_resume s"
  by (simp add: onResume_def without_resume_def)

lemma rm_run_without_resume:
  "without_resume (rm_run ops s) = rm_run (filter (\<lambda>x. \<not> is_OnResume x) ops) (without_resume s)"
proof (induction ops arbitrary: s)
  case Nil
  show ?case by simp
next
  case (Cons x xs)
  show ?case
  proof (cases "is_OnResume x")
    case True
    then obtain callback where "x = OnResume callback" by (cases x) simp_all
    then show ?thesis using Cons.IH [of "rm_step x s"] by (simp add: onResume_without_resume)
  next
    case False
    then show ?thesis using Cons.IH [of "rm_step x s"] by (simp add: rm_step_without_resume)
  qed
qed

text \<open>
  C10. Whatever operations run on a resource manager, the state of the consumers and the
  file system end as they end when every registration of a resume callback is left out
  and the list of resume callbacks is empty from the start: no operation calls a
  resume callback.
\<close>

theorem resume_callbacks_never_invoked:
  "world (rm_run ops s) = world (rm_run (filter (\<lambda>x. \<not> is_OnResume x) ops) (without_resume s)) \<and>
   fs (rm_run ops s) = fs (rm_run (filter (\<lambda>x. \<not> is_OnResume x) ops) (without_resume s))"
proof -
  have "world (without_resume (rm_run ops s)) = world (rm_run ops s)"
    and "fs (without_resume (rm_run ops s)) = fs (rm_run ops s)"
    by (simp_all add: without_resume_def)
  then show ?thesis by (simp add: rm_run_without_resume)
qed

text \<open>A consumer registers a pause and a resume callback; memory use goes to 90 percent
  and back to 50 percent. The consumer has been paused and has not been resumed.\<close>

theorem resume_callbacks_never_invoked_witness:
  "world (rm_run
     [OnPause (log_callback ''paused''), OnResume (log_callback ''resumed''),
      CheckResourcePressure (example_env\<lparr>env_freemem := 100\<rparr>),
      CheckResourcePressure (example_env\<lparr>env_freemem := 500\<rparr>)]
     (new_ResourceManager ''/srv'' empty_fs [])) = [''paused'']"
proof -
  have "world (rm_run
     (filter (\<lambda>x. \<not> is_OnResume x)
       [OnPause (log_callback ''paused''), OnResume (log_callback ''resumed''),
        CheckResourcePressure (example_env\<lparr>env_freemem := 100\<rparr>),
        CheckResourcePressure (example_env\<lparr>env_freemem := 500\<rparr>)])
     (without_resume (new_ResourceManager ''/srv'' empty_fs []))) = [''paused'']"
    by code_simp
  with resume_callbacks_never_invoked [of
     "[OnPause (log_callback ''paused''), OnResume (log_callback ''resumed''),
       CheckResourcePressure (example_env\<lparr>env_freemem := 100\<rparr>),
       CheckResourcePressure (example_env\<lparr>env_freemem := 500\<rparr>)]"
     "new_ResourceManager ''/srv'' empty_fs []"]
  show ?thesis by simp
qed

end
